theory Spec2Isabelle
  imports Complex_Main "HOL-Library.Multiset" "HOL-Library.Sublist"
begin

section \<open>Numbers: binary64 arithmetic, slices and number formatting\<close>

text \<open>
  The daemon \<^verbatim>\<open>monitor.js\<close> computes with JavaScript numbers, the binary64 numbers of
  IEEE 754. A number is modelled by its exact value, a rational, and every arithmetic
  operation of the code is the exact operation followed by \<open>roundDouble\<close>, the rounding
  to the nearest number with a 53-bit significand, a tie going to the even significand.
  So \<^verbatim>\<open>a + b\<close> is \<open>roundDouble (a + b)\<close>, and likewise for \<^verbatim>\<open>-\<close>, \<^verbatim>\<open>*\<close> and \<^verbatim>\<open>/\<close>.
  Comparisons, \<^verbatim>\<open>Math.abs\<close>, \<^verbatim>\<open>Math.round\<close> and \<^verbatim>\<open>toFixed\<close> are exact on the value. The
  rounding covers the normal range of binary64: overflow to \<^verbatim>\<open>Infinity\<close> and the
  subnormal numbers are not modelled, and \<^verbatim>\<open>NaN\<close> has no counterpart; the places where
  the code can produce a non-finite number are named where they occur. A value that
  JavaScript holds as \<^verbatim>\<open>null\<close> or \<^verbatim>\<open>undefined\<close> is \<open>None\<close>. The periods of the indicators
  are natural numbers, at least 1 in every configuration (at period 0 the code divides
  by zero). Time stamps are the integers returned by \<^verbatim>\<open>Date.now()\<close>.

  The one exception is \<open>calcRSI\<close>, which is embedded in exact arithmetic: which of its
  three results applies (unavailable, exactly 100, the formula) is decided by a length
  and by a sum of absolute differences being zero, neither of which depends on the
  rounding, and its formula is compared below with the formula of the specification as
  that is written.
\<close>

text \<open>\<open>pow2 e\<close> is \<open>2\<close> to the integer power \<open>e\<close>.\<close>

definition pow2 :: "int \<Rightarrow> rat" where
  "pow2 e = (if 0 \<le> e then 2 ^ nat e else 1 / 2 ^ nat (- e))"

text \<open>
  The binary exponent of a positive number \<open>x\<close>, the integer \<open>e\<close> with
  \<open>2^e \<le> x < 2^(e+1)\<close>, found by doubling or halving \<open>x\<close> into \<open>[1, 2)\<close>.
\<close>

function binaryExponent :: "rat \<Rightarrow> int" where
  "binaryExponent x =
     (if x \<le> 0 then 0
      else if x < 1 then binaryExponent (2 * x) - 1
      else if 2 \<le> x then binaryExponent (x / 2) + 1
      else 0)"
  by pat_completeness auto
termination
proof (relation "measure (\<lambda>x. nat (2 * \<lceil>1 / x\<rceil> + \<lfloor>x\<rfloor>))")
  show "wf (measure (\<lambda>x. nat (2 * \<lceil>1 / x\<rceil> + \<lfloor>x\<rfloor>)))" by simp
next
  fix x :: rat
  assume pos: "\<not> x \<le> 0" and lt: "x < 1"
  have x0: "0 < x" using pos by simp
  have c1: "1 / (2 * x) \<le> of_int \<lceil>1 / x\<rceil> / 2"
  proof -
    have "1 / x \<le> of_int \<lceil>1 / x\<rceil>" by (rule le_of_int_ceiling)
    then have "(1 / x) / 2 \<le> of_int \<lceil>1 / x\<rceil> / 2" by simp
    then show ?thesis by (simp add: field_simps)
  qed
  have big: "2 \<le> \<lceil>1 / x\<rceil>"
  proof -
    have "1 < 1 / x" using x0 lt by simp
    then have "1 < \<lceil>1 / x\<rceil>" by (simp add: less_ceiling_iff)
    then show ?thesis by simp
  qed
  have "\<lceil>1 / (2 * x)\<rceil> \<le> \<lceil>of_int \<lceil>1 / x\<rceil> / (2::rat)\<rceil>"
    using c1 by (rule ceiling_mono)
  also have "\<dots> \<le> \<lceil>1 / x\<rceil> - 1"
  proof -
    have "of_int \<lceil>1 / x\<rceil> / (2::rat) \<le> of_int (\<lceil>1 / x\<rceil> - 1)"
      using big by simp
    then show ?thesis by (simp only: ceiling_le_iff)
  qed
  finally have c2: "\<lceil>1 / (2 * x)\<rceil> \<le> \<lceil>1 / x\<rceil> - 1" .
  have f2: "\<lfloor>2 * x\<rfloor> \<le> 1"
  proof -
    have "2 * x < 2" using lt by simp
    then have "\<lfloor>2 * x\<rfloor> < 2" by (simp add: floor_less_iff)
    then show ?thesis by simp
  qed
  have f0: "\<lfloor>x\<rfloor> = 0" using x0 lt by (simp add: floor_eq_iff)
  have "2 * \<lceil>1 / (2 * x)\<rceil> + \<lfloor>2 * x\<rfloor> < 2 * \<lceil>1 / x\<rceil> + \<lfloor>x\<rfloor>"
    using c2 f2 f0 by linarith
  moreover have "0 < 2 * \<lceil>1 / x\<rceil> + \<lfloor>x\<rfloor>" using big f0 by linarith
  ultimately show "(2 * x, x) \<in> measure (\<lambda>x. nat (2 * \<lceil>1 / x\<rceil> + \<lfloor>x\<rfloor>))"
    by simp
next
  fix x :: rat
  assume pos: "\<not> x \<le> 0" and nlt: "\<not> x < 1" and ge: "2 \<le> x"
  have c1: "\<lceil>1 / x\<rceil> = 1"
  proof -
    have "0 < 1 / x" "1 / x \<le> 1" using ge by simp_all
    then show ?thesis by (simp add: ceiling_eq_iff)
  qed
  have c2: "\<lceil>1 / (x / 2)\<rceil> = 1"
  proof -
    have "0 < 1 / (x / 2)" "1 / (x / 2) \<le> 1" using ge by simp_all
    then show ?thesis by (simp add: ceiling_eq_iff)
  qed
  have fl: "\<lfloor>x / 2\<rfloor> < \<lfloor>x\<rfloor>"
  proof -
    have "x / 2 \<le> x - 1" using ge by simp
    then have "\<lfloor>x / 2\<rfloor> \<le> \<lfloor>x - 1\<rfloor>" by (rule floor_mono)
    also have "\<dots> = \<lfloor>x\<rfloor> - 1" by simp
    finally show ?thesis by simp
  qed
  have h0: "0 \<le> \<lfloor>x / 2\<rfloor>" using ge by simp
  have "2 * \<lceil>1 / (x / 2)\<rceil> + \<lfloor>x / 2\<rfloor> < 2 * \<lceil>1 / x\<rceil> + \<lfloor>x\<rfloor>"
    using c1 c2 fl by linarith
  moreover have "0 < 2 * \<lceil>1 / x\<rceil> + \<lfloor>x\<rfloor>" using c1 fl h0 by linarith
  ultimately show "(x / 2, x) \<in> measure (\<lambda>x. nat (2 * \<lceil>1 / x\<rceil> + \<lfloor>x\<rfloor>))"
    by simp
qed

declare binaryExponent.simps [simp del]

text \<open>The nearest integer, a tie going to the even one.\<close>

definition roundEven :: "rat \<Rightarrow> int" where
  "roundEven m =
     (let f = \<lfloor>m\<rfloor>; r = m - of_int f
      in if r < 1 / 2 then f else if 1 / 2 < r then f + 1 else if even f then f else f + 1)"

text \<open>
  \<open>roundDouble x\<close>: with \<open>e\<close> the binary exponent of \<open>\<bar>x\<bar>\<close>, the numbers with a 53-bit
  significand around \<open>\<bar>x\<bar>\<close> are the integer multiples of \<open>2^(e - 52)\<close>.
\<close>

definition roundDouble :: "rat \<Rightarrow> rat" where
  "roundDouble x =
     (if x = 0 then 0
      else let a = \<bar>x\<bar>; u = pow2 (binaryExponent a - 52)
           in sgn x * (of_int (roundEven (a / u)) * u))"

text \<open>\<^verbatim>\<open>xs.slice(-n)\<close>: the last \<open>n\<close> elements; \<^verbatim>\<open>slice(-0)\<close> is \<^verbatim>\<open>slice(0)\<close>, the whole array.\<close>

definition slice_last :: "nat \<Rightarrow> 'a list \<Rightarrow> 'a list" where
  "slice_last n xs = (if n = 0 then xs else drop (length xs - n) xs)"

text \<open>\<^verbatim>\<open>xs.reduce((a, b) => a + b, 0)\<close>, each addition rounded.\<close>

definition reduce_add :: "rat list \<Rightarrow> rat" where
  "reduce_add xs = foldl (\<lambda>a b. roundDouble (a + b)) 0 xs"

text \<open>
  \<^verbatim>\<open>x.toFixed(f)\<close> for \<open>\<bar>x\<bar> < 10^21\<close>: the sign is split off, \<open>n\<close> is the integer with
  \<open>n / 10^f\<close> nearest to \<open>\<bar>x\<bar>\<close> (the larger one on a tie), and the digits of \<open>n\<close> are
  padded with zeros to \<open>f + 1\<close> places before the point is inserted. The method works
  on the exact value of the double, as the definitions do. \<open>toFixedVal\<close> is the value
  of that decimal string, and \<open>parseFixed\<close> is the number that \<^verbatim>\<open>parseFloat\<close> reads back
  from it, the double nearest to the decimal.
\<close>

definition toFixedN :: "nat \<Rightarrow> rat \<Rightarrow> nat" where
  "toFixedN f x = nat \<lfloor>\<bar>x\<bar> * 10 ^ f + 1 / 2\<rfloor>"

definition toFixedVal :: "nat \<Rightarrow> rat \<Rightarrow> rat" where
  "toFixedVal f x = (if x < 0 then - 1 else 1) * (of_nat (toFixedN f x) / 10 ^ f)"

definition parseFixed :: "nat \<Rightarrow> rat \<Rightarrow> rat" where
  "parseFixed f x = roundDouble (toFixedVal f x)"

definition digit :: "nat \<Rightarrow> char" where
  "digit d = ''0123456789'' ! d"

function decimal :: "nat \<Rightarrow> string" where
  "decimal n = (if n < 10 then [digit n] else decimal (n div 10) @ [digit (n mod 10)])"
  by pat_completeness auto
termination
  by (relation "measure (\<lambda>n. n)") auto

declare decimal.simps [simp del]

definition toFixed :: "nat \<Rightarrow> rat \<Rightarrow> string" where
  "toFixed f x =
     (let m = decimal (toFixedN f x);
          m' = replicate (f + 1 - length m) (CHR ''0'') @ m;
          k = length m'
      in (if x < 0 then ''-'' else '''') @
         (if f = 0 then m' else take (k - f) m' @ ''.'' @ drop (k - f) m'))"

text \<open>\<^verbatim>\<open>Math.round(x)\<close>: the nearest integer, a tie going up.\<close>

definition mathRound :: "rat \<Rightarrow> int" where
  "mathRound x = \<lfloor>x + 1 / 2\<rfloor>"

section \<open>Technical calculations\<close>

text \<open>
  \<^verbatim>\<open>calcRSI(closes, period = 14)\<close>. The loop walks the adjacent pairs of the last
  \<open>period + 1\<close> closes and accumulates the gains and the losses.
\<close>

fun rsiLoop :: "rat list \<Rightarrow> rat \<times> rat \<Rightarrow> rat \<times> rat" where
  "rsiLoop (a # b # rest) (gains, losses) =
     (let diff = b - a
      in if diff > 0 then rsiLoop (b # rest) (gains + diff, losses)
         else rsiLoop (b # rest) (gains, losses + \<bar>diff\<bar>))"
| "rsiLoop [a] acc = acc"
| "rsiLoop [] acc = acc"

definition calcRSI :: "rat list \<Rightarrow> nat \<Rightarrow> rat option" where
  "calcRSI closes period =
     (if length closes < period + 1 then None
      else let recent = slice_last (period + 1) closes;
               (gains, losses) = rsiLoop recent (0, 0)
           in if losses = 0 then Some 100
              else let rs = (gains / of_nat period) / (losses / of_nat period)
                   in Some (100 - 100 / (1 + rs)))"

text \<open>
  \<^verbatim>\<open>calcEMA(closes, period)\<close>: \<open>k\<close> is \<^verbatim>\<open>2 / (period + 1)\<close>, the seed is the mean of the
  first \<open>period\<close> closes, and the loop runs over
  \<^verbatim>\<open>closes[period], ..., closes[length - 1]\<close> with \<^verbatim>\<open>ema = closes[i] * k + ema * (1 - k)\<close>.
\<close>

fun emaLoop :: "rat \<Rightarrow> rat \<Rightarrow> rat list \<Rightarrow> rat" where
  "emaLoop k ema [] = ema"
| "emaLoop k ema (c # cs) =
     emaLoop k (roundDouble (roundDouble (c * k) + roundDouble (ema * roundDouble (1 - k)))) cs"

definition calcEMA :: "rat list \<Rightarrow> nat \<Rightarrow> rat option" where
  "calcEMA closes period =
     (if length closes < period then None
      else let k = roundDouble (2 / roundDouble (of_nat period + 1));
               ema = roundDouble (reduce_add (take period closes) / of_nat period)
           in Some (emaLoop k ema (drop period closes)))"

definition calcSMA :: "rat list \<Rightarrow> nat \<Rightarrow> rat option" where
  "calcSMA closes period =
     (if length closes < period then None
      else Some (roundDouble (reduce_add (slice_last period closes) / of_nat period)))"

section \<open>Alerts, quotes and configuration\<close>

datatype severity = MEDIUM | HIGH | CRITICAL

text \<open>A field of an alert's \<^verbatim>\<open>data\<close> object: a string, a number or \<^verbatim>\<open>undefined\<close>.\<close>

datatype jsval = Str string | Num rat | Undefined

text \<open>
  An alert object. The \<^verbatim>\<open>message\<close> text is presentation only (it embeds locale
  formatting) and is left out; \<^verbatim>\<open>data\<close> keeps its fields in the order written.
\<close>

record alert =
  type :: string
  severity :: severity
  data :: "(string \<times> jsval) list"

text \<open>
  The fields of a quote that the rules read. \<open>prevClose\<close> and \<open>changePct\<close> may be
  missing. \<open>mkQuote\<close> is the construction in \<^verbatim>\<open>fetchSnapshots\<close>: the percent change
  \<^verbatim>\<open>((price - prevClose) / prevClose) * 100\<close> exists only for a truthy (present and
  non-zero) previous close.
\<close>

record quote =
  price :: rat
  volume :: rat
  prevClose :: "rat option"
  changePct :: "rat option"

definition mkQuote :: "rat \<Rightarrow> rat \<Rightarrow> rat option \<Rightarrow> quote" where
  "mkQuote p v pc =
     \<lparr>price = p, volume = v, prevClose = pc,
      changePct = (case pc of
                     None \<Rightarrow> None
                   | Some c \<Rightarrow>
                       if c \<noteq> 0
                       then Some (roundDouble (roundDouble (roundDouble (p - c) / c) * 100))
                       else None)\<rparr>"

text \<open>\<^verbatim>\<open>config.thresholds\<close> and \<^verbatim>\<open>config.alerts\<close>; the file \<^verbatim>\<open>config.json\<close> is a parameter.\<close>

record thresholds =
  priceChangePct :: rat
  volumeSpikeMultiplier :: rat
  rsiOverbought :: rat
  rsiOversold :: rat
  maShortPeriod :: nat
  maLongPeriod :: nat
  goldenDeathCrossShort :: nat
  goldenDeathCrossLong :: nat
  nearStopLossPct :: rat
  nearTargetPct :: rat

record alertsConfig =
  dedupeWindowMs :: int
  maxAlertsPerTicker :: nat
  priorityOrder :: "string list"

section \<open>Threshold checks\<close>

text \<open>
  \<^verbatim>\<open>checkThresholds(ticker, quote)\<close> pushes the alerts of five rules in a fixed order.
  Each rule is one definition; \<open>history\<close> is \<^verbatim>\<open>priceHistory[ticker] || []\<close> and
  \<open>avgVol\<close> is \<^verbatim>\<open>avgVolume[ticker]\<close>.
\<close>

definition priceChangeRule :: "thresholds \<Rightarrow> quote \<Rightarrow> alert list" where
  "priceChangeRule t q =
     (case changePct q of
        None \<Rightarrow> []
      | Some cp \<Rightarrow>
          if cp \<noteq> 0 \<and> \<bar>cp\<bar> \<ge> priceChangePct t
          then [\<lparr>type = ''priceChange'',
                 severity = (if \<bar>cp\<bar> \<ge> roundDouble (priceChangePct t * 2) then HIGH else MEDIUM),
                 data = [(''changePct'', Str (toFixed 2 cp)),
                         (''price'', Num (price q)),
                         (''prevClose'', (case prevClose q of None \<Rightarrow> Undefined | Some c \<Rightarrow> Num c))]\<rparr>]
          else [])"

text \<open>
  \<open>multiple\<close> is the string \<^verbatim>\<open>(quote.volume / avgVolume[ticker]).toFixed(1)\<close>, and both the
  severity and the payload read it back with \<^verbatim>\<open>parseFloat\<close>.
\<close>

definition volumeSpikeRule :: "thresholds \<Rightarrow> rat option \<Rightarrow> quote \<Rightarrow> alert list" where
  "volumeSpikeRule t avgVol q =
     (case avgVol of
        None \<Rightarrow> []
      | Some av \<Rightarrow>
          if av \<noteq> 0 \<and> volume q > roundDouble (av * volumeSpikeMultiplier t)
          then let multiple = parseFixed 1 (roundDouble (volume q / av))
               in [\<lparr>type = ''volumeSpike'',
                     severity = (if multiple \<ge> 3 then HIGH else MEDIUM),
                     data = [(''volume'', Num (volume q)),
                             (''avgVolume'', Num (of_int (mathRound av))),
                             (''multiple'', Num multiple)]\<rparr>]
          else [])"

definition rsiRule :: "thresholds \<Rightarrow> rat list \<Rightarrow> alert list" where
  "rsiRule t history =
     (case calcRSI history 14 of
        None \<Rightarrow> []
      | Some rsi \<Rightarrow>
          if rsi \<ge> rsiOverbought t
          then [\<lparr>type = ''rsi'', severity = MEDIUM,
                 data = [(''rsi'', Str (toFixed 1 rsi)), (''condition'', Str ''overbought'')]\<rparr>]
          else if rsi \<le> rsiOversold t
          then [\<lparr>type = ''rsi'', severity = MEDIUM,
                 data = [(''rsi'', Str (toFixed 1 rsi)), (''condition'', Str ''oversold'')]\<rparr>]
          else [])"

text \<open>
  \<^verbatim>\<open>history.slice(0, -1)\<close> is \<open>butlast history\<close>. The guard
  \<^verbatim>\<open>emaS && emaL && prevEmaS && prevEmaL\<close> needs all four values present and non-zero.
\<close>

definition emaCrossRule :: "thresholds \<Rightarrow> rat list \<Rightarrow> alert list" where
  "emaCrossRule t history =
     (case (calcEMA history (maShortPeriod t), calcEMA history (maLongPeriod t),
            calcEMA (butlast history) (maShortPeriod t),
            calcEMA (butlast history) (maLongPeriod t)) of
        (Some emaS, Some emaL, Some prevEmaS, Some prevEmaL) \<Rightarrow>
          if emaS \<noteq> 0 \<and> emaL \<noteq> 0 \<and> prevEmaS \<noteq> 0 \<and> prevEmaL \<noteq> 0
          then if prevEmaS \<le> prevEmaL \<and> emaS > emaL
               then [\<lparr>type = ''maCross'', severity = HIGH,
                      data = [(''crossType'', Str ''bullish''),
                              (''shortMA'', Str (toFixed 2 emaS)),
                              (''longMA'', Str (toFixed 2 emaL))]\<rparr>]
               else if prevEmaS \<ge> prevEmaL \<and> emaS < emaL
               then [\<lparr>type = ''maCross'', severity = HIGH,
                      data = [(''crossType'', Str ''bearish''),
                              (''shortMA'', Str (toFixed 2 emaS)),
                              (''longMA'', Str (toFixed 2 emaL))]\<rparr>]
               else []
          else []
      | _ \<Rightarrow> [])"

definition smaCrossRule :: "thresholds \<Rightarrow> rat list \<Rightarrow> alert list" where
  "smaCrossRule t history =
     (case (calcSMA history (goldenDeathCrossShort t), calcSMA history (goldenDeathCrossLong t),
            calcSMA (butlast history) (goldenDeathCrossShort t),
            calcSMA (butlast history) (goldenDeathCrossLong t)) of
        (Some sma50, Some sma200, Some prevSma50, Some prevSma200) \<Rightarrow>
          if sma50 \<noteq> 0 \<and> sma200 \<noteq> 0 \<and> prevSma50 \<noteq> 0 \<and> prevSma200 \<noteq> 0
          then if prevSma50 \<le> prevSma200 \<and> sma50 > sma200
               then [\<lparr>type = ''maCross'', severity = HIGH,
                      data = [(''crossType'', Str ''golden''),
                              (''sma50'', Str (toFixed 2 sma50)),
                              (''sma200'', Str (toFixed 2 sma200))]\<rparr>]
               else if prevSma50 \<ge> prevSma200 \<and> sma50 < sma200
               then [\<lparr>type = ''maCross'', severity = HIGH,
                      data = [(''crossType'', Str ''death''),
                              (''sma50'', Str (toFixed 2 sma50)),
                              (''sma200'', Str (toFixed 2 sma200))]\<rparr>]
               else []
          else []
      | _ \<Rightarrow> [])"

definition checkThresholds :: "thresholds \<Rightarrow> rat list \<Rightarrow> rat option \<Rightarrow> quote \<Rightarrow> alert list" where
  "checkThresholds t history avgVol q =
     priceChangeRule t q @ volumeSpikeRule t avgVol q @ rsiRule t history
       @ emaCrossRule t history @ smaCrossRule t history"

section \<open>Position proximity checks\<close>

text \<open>
  A row of the watch list as \<^verbatim>\<open>checkPositions\<close> reads it once the line is split at
  \<^verbatim>\<open>|\<close> into at least five non-empty trimmed cells: \<open>symbol\<close> is \<^verbatim>\<open>cols[0]\<close>,
  \<open>stopLoss\<close> and \<open>target\<close> are \<^verbatim>\<open>parseFloat(cols[2])\<close> and
  \<^verbatim>\<open>parseFloat(cols[3])\<close> (\<open>None\<close> for \<^verbatim>\<open>NaN\<close>), \<open>status\<close> is \<^verbatim>\<open>cols[4]\<close> in lower
  case. Reading and splitting the file is not modelled; a missing file is the empty list.
  The earlier test of the line (\<^verbatim>\<open>line.includes(ticker)\<close> and \<^verbatim>\<open>line.includes('|')\<close>)
  holds for every line with five cells whose first cell is the ticker, so it filters
  nothing that the test on \<^verbatim>\<open>cols\<close> lets through.
\<close>

record position =
  symbol :: string
  stopLoss :: "rat option"
  target :: "rat option"
  status :: string

text \<open>
  The distance is \<^verbatim>\<open>((quote.price - stopLoss) / quote.price) * 100\<close>, three rounded
  operations. At price 0 it is a division by zero, \<^verbatim>\<open>Infinity\<close> in JavaScript for the
  non-zero stop or target that reaches this point, which is within no threshold.
\<close>

definition stopLossRule :: "thresholds \<Rightarrow> quote \<Rightarrow> position \<Rightarrow> alert list" where
  "stopLossRule t q row =
     (case stopLoss row of
        None \<Rightarrow> []
      | Some sl \<Rightarrow>
          if sl = 0 \<or> price q = 0 then []
          else let dist = roundDouble (roundDouble (roundDouble (price q - sl) / price q) * 100)
               in if \<bar>dist\<bar> \<le> nearStopLossPct t
                  then [\<lparr>type = ''nearStopLoss'', severity = CRITICAL,
                         data = [(''price'', Num (price q)), (''stopLoss'', Num sl),
                                 (''distancePct'', Str (toFixed 1 dist))]\<rparr>]
                  else [])"

definition targetRule :: "thresholds \<Rightarrow> quote \<Rightarrow> position \<Rightarrow> alert list" where
  "targetRule t q row =
     (case target row of
        None \<Rightarrow> []
      | Some tg \<Rightarrow>
          if tg = 0 \<or> price q = 0 then []
          else let dist = roundDouble (roundDouble (roundDouble (tg - price q) / price q) * 100)
               in if \<bar>dist\<bar> \<le> nearTargetPct t
                  then [\<lparr>type = ''nearTarget'', severity = HIGH,
                         data = [(''price'', Num (price q)), (''target'', Num tg),
                                 (''distancePct'', Str (toFixed 1 dist))]\<rparr>]
                  else [])"

fun checkPositions :: "thresholds \<Rightarrow> string \<Rightarrow> quote \<Rightarrow> position list \<Rightarrow> alert list" where
  "checkPositions t ticker q [] = []"
| "checkPositions t ticker q (row # rows) =
     (if symbol row \<noteq> ticker \<or> status row \<noteq> ''active'' then checkPositions t ticker q rows
      else stopLossRule t q row @ targetRule t q row @ checkPositions t ticker q rows)"

section \<open>Deduplication and selection\<close>

text \<open>
  \<^verbatim>\<open>recentAlerts\<close> maps the key \<^verbatim>\<open>ticker:type\<close> to the time of the last alert that
  passed. \<open>isDuplicate\<close> takes the reading \<open>now\<close> of \<^verbatim>\<open>Date.now()\<close> (its two readings,
  for the comparison and for the stamp, are the same instant) and returns its answer
  with the updated ledger. A stored time of 0 is falsy and counts as absent.
\<close>

type_synonym ledger = "string \<rightharpoonup> int"

definition ledgerKey :: "string \<Rightarrow> string \<Rightarrow> string" where
  "ledgerKey ticker alertType = ticker @ '':'' @ alertType"

definition isDuplicate :: "int \<Rightarrow> int \<Rightarrow> string \<Rightarrow> string \<Rightarrow> ledger \<Rightarrow> bool \<times> ledger" where
  "isDuplicate window now ticker alertType recent =
     (let key = ledgerKey ticker alertType
      in case recent key of
           None \<Rightarrow> (False, recent(key \<mapsto> now))
         | Some lastT \<Rightarrow>
             if lastT \<noteq> 0 \<and> now - lastT < window then (True, recent)
             else (False, recent(key \<mapsto> now)))"

text \<open>
  \<^verbatim>\<open>.filter(a => !isDuplicate(ticker, a.type))\<close> visits the candidates from left to
  right, each call seeing the ledger the earlier calls left. One pass is synchronous and
  all its clock readings are taken to be the same instant \<open>now\<close>.
\<close>

fun filterNotDuplicate ::
  "int \<Rightarrow> int \<Rightarrow> string \<Rightarrow> alert list \<Rightarrow> ledger \<Rightarrow> alert list \<times> ledger" where
  "filterNotDuplicate window now ticker [] recent = ([], recent)"
| "filterNotDuplicate window now ticker (a # as) recent =
     (let (dup, recent1) = isDuplicate window now ticker (type a) recent;
          (kept, recent2) = filterNotDuplicate window now ticker as recent1
      in (if dup then kept else a # kept, recent2))"

text \<open>\<^verbatim>\<open>order.indexOf(x)\<close>: the first position of \<open>x\<close>, or \<open>-1\<close>.\<close>

fun indexOf :: "'a list \<Rightarrow> 'a \<Rightarrow> int" where
  "indexOf [] x = - 1"
| "indexOf (y # ys) x =
     (if y = x then 0 else let i = indexOf ys x in if i < 0 then - 1 else i + 1)"

text \<open>
  \<^verbatim>\<open>.sort((a, b) => indexOf(a.type) - indexOf(b.type))\<close>: the comparator is the
  difference of two integer ranks, and \<^verbatim>\<open>Array.prototype.sort\<close> is stable (ECMAScript
  2019, Node 11 and later; the project asks for Node 20), so the result is the stable
  sort by rank, here the insertion sort \<open>sort_key\<close>. \<^verbatim>\<open>.slice(0, max)\<close> keeps the first
  \<open>max\<close> elements; the maximum is a count, a natural number.
\<close>

definition rank :: "alertsConfig \<Rightarrow> alert \<Rightarrow> int" where
  "rank cfg a = indexOf (priorityOrder cfg) (type a)"

definition selectAlerts ::
  "alertsConfig \<Rightarrow> int \<Rightarrow> string \<Rightarrow> alert list \<Rightarrow> ledger \<Rightarrow> alert list \<times> ledger" where
  "selectAlerts cfg now ticker candidates recent =
     (let (kept, recent') = filterNotDuplicate (dedupeWindowMs cfg) now ticker candidates recent
      in (take (maxAlertsPerTicker cfg) (sort_key (rank cfg) kept), recent'))"

text \<open>
  The module state, and the body of the loop of \<^verbatim>\<open>scan\<close> for one ticker once its quote
  is there and its history is fresh: the price is pushed onto an existing history, the
  candidates of \<^verbatim>\<open>checkPositions\<close> come before those of \<^verbatim>\<open>checkThresholds\<close>.
\<close>

record state =
  priceHistory :: "string \<rightharpoonup> rat list"
  avgVolume :: "string \<rightharpoonup> rat"
  recentAlerts :: ledger

definition pushPrice :: "string \<Rightarrow> quote \<Rightarrow> state \<Rightarrow> state" where
  "pushPrice ticker q s =
     (case priceHistory s ticker of
        None \<Rightarrow> s
      | Some h \<Rightarrow> s\<lparr>priceHistory := (priceHistory s)(ticker \<mapsto> h @ [price q])\<rparr>)"

definition historyOf :: "state \<Rightarrow> string \<Rightarrow> rat list" where
  "historyOf s ticker = (case priceHistory s ticker of None \<Rightarrow> [] | Some h \<Rightarrow> h)"

definition candidates ::
  "thresholds \<Rightarrow> string \<Rightarrow> quote \<Rightarrow> position list \<Rightarrow> state \<Rightarrow> alert list" where
  "candidates t ticker q rows s =
     checkPositions t ticker q rows
       @ checkThresholds t (historyOf s ticker) (avgVolume s ticker) q"

definition scanTicker ::
  "thresholds \<Rightarrow> alertsConfig \<Rightarrow> int \<Rightarrow> string \<Rightarrow> quote \<Rightarrow> position list \<Rightarrow> state
     \<Rightarrow> alert list \<times> state" where
  "scanTicker t cfg now ticker q rows s =
     (let s1 = pushPrice ticker q s;
          (allAlerts, recent') =
             selectAlerts cfg now ticker (candidates t ticker q rows s1) (recentAlerts s1)
      in (allAlerts, s1\<lparr>recentAlerts := recent'\<rparr>))"

text \<open>
  The same pass with its clock readings kept apart. One call of \<^verbatim>\<open>isDuplicate\<close> reads
  \<^verbatim>\<open>Date.now()\<close> twice: \<open>nowTest\<close> is the reading compared with the stored time,
  \<open>nowStamp\<close> the later one that is stored. In the filter, \<open>clock i\<close> is the pair of
  readings of the call for the candidate at position \<open>i\<close>.
\<close>

definition isDuplicateAt ::
  "int \<Rightarrow> int \<Rightarrow> int \<Rightarrow> string \<Rightarrow> string \<Rightarrow> ledger \<Rightarrow> bool \<times> ledger" where
  "isDuplicateAt window nowTest nowStamp ticker alertType recent =
     (let key = ledgerKey ticker alertType
      in case recent key of
           None \<Rightarrow> (False, recent(key \<mapsto> nowStamp))
         | Some lastT \<Rightarrow>
             if lastT \<noteq> 0 \<and> nowTest - lastT < window then (True, recent)
             else (False, recent(key \<mapsto> nowStamp)))"

fun filterNotDuplicateAt ::
  "int \<Rightarrow> (nat \<Rightarrow> int \<times> int) \<Rightarrow> nat \<Rightarrow> string \<Rightarrow> alert list \<Rightarrow> ledger
     \<Rightarrow> alert list \<times> ledger" where
  "filterNotDuplicateAt window clock i ticker [] recent = ([], recent)"
| "filterNotDuplicateAt window clock i ticker (a # as) recent =
     (let (dup, recent1) =
            isDuplicateAt window (fst (clock i)) (snd (clock i)) ticker (type a) recent;
          (kept, recent2) = filterNotDuplicateAt window clock (Suc i) ticker as recent1
      in (if dup then kept else a # kept, recent2))"

definition selectAlertsAt ::
  "alertsConfig \<Rightarrow> (nat \<Rightarrow> int \<times> int) \<Rightarrow> string \<Rightarrow> alert list \<Rightarrow> ledger
     \<Rightarrow> alert list \<times> ledger" where
  "selectAlertsAt cfg clock ticker cands recent =
     (let (kept, recent') =
            filterNotDuplicateAt (dedupeWindowMs cfg) clock 0 ticker cands recent
      in (take (maxAlertsPerTicker cfg) (sort_key (rank cfg) kept), recent'))"

definition scanTickerAt ::
  "thresholds \<Rightarrow> alertsConfig \<Rightarrow> (nat \<Rightarrow> int \<times> int) \<Rightarrow> string \<Rightarrow> quote \<Rightarrow> position list
     \<Rightarrow> state \<Rightarrow> alert list \<times> state" where
  "scanTickerAt t cfg clock ticker q rows s =
     (let s1 = pushPrice ticker q s;
          (allAlerts, recent') =
             selectAlertsAt cfg clock ticker (candidates t ticker q rows s1) (recentAlerts s1)
      in (allAlerts, s1\<lparr>recentAlerts := recent'\<rparr>))"

text \<open>
  Whether \<open>isDuplicate\<close> answers \<^verbatim>\<open>true\<close> for a kind: the ledger holds a truthy time
  for the key that is less than the window before \<open>now\<close>.
\<close>

definition suppressed :: "int \<Rightarrow> int \<Rightarrow> string \<Rightarrow> string \<Rightarrow> ledger \<Rightarrow> bool" where
  "suppressed window now ticker alertType recent =
     (case recent (ledgerKey ticker alertType) of
        None \<Rightarrow> False
      | Some lastT \<Rightarrow> lastT \<noteq> 0 \<and> now - lastT < window)"

section \<open>The RSI in the words of the specification\<close>

text \<open>
  The words of the specification for the RSI: the deltas of adjacent closes, the
  average gain and the average loss over them, and the three cases as the claim
  states them. These are compared with \<open>calcRSI\<close> below.
\<close>

definition deltas :: "rat list \<Rightarrow> rat list" where
  "deltas xs = map (\<lambda>(a, b). b - a) (zip xs (tl xs))"




section \<open>Example inputs\<close>

text \<open>
  Concrete configurations, candidates, histories and states at which the theorems below
  are instantiated. The priority order is the one of the product requirements
  (\<^verbatim>\<open>nearStopLoss > nearTarget > maCross > volumeSpike > rsi > priceChange\<close>), the window
  is its 30 minutes.
\<close>

definition exCfg :: alertsConfig where
  "exCfg = \<lparr>dedupeWindowMs = 1800000, maxAlertsPerTicker = 3,
            priorityOrder = [''nearStopLoss'', ''nearTarget'', ''maCross'',
                             ''volumeSpike'', ''rsi'', ''priceChange'']\<rparr>"

definition exAlert :: "string \<Rightarrow> alert" where
  "exAlert k = \<lparr>type = k, severity = MEDIUM, data = []\<rparr>"

definition exCands :: "alert list" where
  "exCands = map exAlert [''nearStopLoss'', ''nearTarget'', ''priceChange'', ''volumeSpike'', ''rsi'']"

definition exT :: thresholds where
  "exT = \<lparr>priceChangePct = 2, volumeSpikeMultiplier = 2, rsiOverbought = 70, rsiOversold = 30,
          maShortPeriod = 1, maLongPeriod = 2, goldenDeathCrossShort = 1,
          goldenDeathCrossLong = 2, nearStopLossPct = 2, nearTargetPct = 2\<rparr>"

definition exState :: state where
  "exState = \<lparr>priceHistory = [''X'' \<mapsto> [1, 1]], avgVolume = Map.empty, recentAlerts = Map.empty\<rparr>"

definition exQuote :: quote where
  "exQuote = mkQuote 2 0 None"

definition exBullish :: alert where
  "exBullish = \<lparr>type = ''maCross'', severity = HIGH,
                data = [(''crossType'', Str ''bullish''), (''shortMA'', Str ''2.00''),
                        (''longMA'', Str ''1.67'')]\<rparr>"

definition exGolden :: alert where
  "exGolden = \<lparr>type = ''maCross'', severity = HIGH,
                data = [(''crossType'', Str ''golden''), (''sma50'', Str ''2.00''),
                        (''sma200'', Str ''1.50'')]\<rparr>"

text \<open>A clock that advances by a millisecond at every reading.\<close>

definition exClock :: "nat \<Rightarrow> int \<times> int" where
  "exClock i = (1000 + 2 * int i, 1001 + 2 * int i)"





text \<open>The double nearest to 0.1.\<close>

definition tenth :: rat where
  "tenth = 3602879701896397 / 36028797018963968"

section \<open>Properties of the rounding\<close>

lemma binaryExponent_lt1:
  "0 < x \<Longrightarrow> x < 1 \<Longrightarrow> binaryExponent x = binaryExponent (2 * x) - 1"
  by (subst binaryExponent.simps) simp

lemma binaryExponent_ge2:
  "2 \<le> x \<Longrightarrow> binaryExponent x = binaryExponent (x / 2) + 1"
  by (subst binaryExponent.simps) simp

lemma binaryExponent_unit:
  "1 \<le> x \<Longrightarrow> x < 2 \<Longrightarrow> binaryExponent x = 0"
  by (subst binaryExponent.simps) simp

lemmas binaryExponent_step = binaryExponent_lt1 binaryExponent_ge2 binaryExponent_unit

lemma floor_rat_numeral_div [simp]:
  "\<lfloor>(numeral a :: rat) / numeral b\<rfloor> = numeral a div numeral b"
  using floor_divide_of_int_eq [of "numeral a" "numeral b", where ?'a = rat] by simp

lemma roundDouble_0 [simp]: "roundDouble 0 = 0"
  by (simp add: roundDouble_def)


lemma pow2_powi: "pow2 e = 2 powi e"
  by (simp add: pow2_def power_int_def inverse_eq_divide power_one_over)

lemma pow2_pos [simp]: "0 < pow2 e"
  by (simp add: pow2_powi)

lemma pow2_nonzero [simp]: "pow2 e \<noteq> 0"
  by (simp add: pow2_powi)

lemma pow2_add: "pow2 (a + b) = pow2 a * pow2 b"
  by (simp add: pow2_powi power_int_add)

lemma pow2_0 [simp]: "pow2 0 = 1"
  by (simp add: pow2_def)

lemma pow2_1 [simp]: "pow2 1 = 2"
  by (simp add: pow2_def)

lemma pow2_succ: "pow2 (e + 1) = 2 * pow2 e"
  by (simp add: pow2_add)

lemma pow2_pred: "pow2 (e - 1) = pow2 e / 2"
  using pow2_succ [of "e - 1"] by simp

lemma pow2_less_iff [simp]: "pow2 a < pow2 b \<longleftrightarrow> a < b"
proof
  assume lt: "pow2 a < pow2 b"
  show "a < b"
  proof (rule ccontr)
    assume "\<not> a < b"
    then have "b \<le> a" by simp
    then have "pow2 b \<le> pow2 a"
      unfolding pow2_powi by (rule power_int_increasing) simp
    with lt show False by simp
  qed
next
  assume "a < b"
  then show "pow2 a < pow2 b"
    unfolding pow2_powi by (rule power_int_strict_increasing) simp
qed

lemma pow2_le_iff [simp]: "pow2 a \<le> pow2 b \<longleftrightarrow> a \<le> b"
  using pow2_less_iff [of b a] by (simp only: not_less [symmetric])

lemma pow2_52: "pow2 e = 2 ^ 52 * pow2 (e - 52)"
proof -
  have "pow2 e = pow2 (52 + (e - 52))" by simp
  also have "\<dots> = pow2 52 * pow2 (e - 52)" by (rule pow2_add)
  also have "pow2 52 = 2 ^ 52" by (simp add: pow2_def)
  finally show ?thesis .
qed

lemma binaryExponent_bounds_aux:
  "0 < x \<longrightarrow> pow2 (binaryExponent x) \<le> x \<and> x < pow2 (binaryExponent x + 1)"
proof (induction x rule: binaryExponent.induct)
  case (1 x)
  show ?case
  proof
    assume x0: "0 < x"
    consider "x < 1" | "2 \<le> x" | "1 \<le> x" "x < 2" by linarith
    then show "pow2 (binaryExponent x) \<le> x \<and> x < pow2 (binaryExponent x + 1)"
    proof cases
      case 1
      have ih: "pow2 (binaryExponent (2 * x)) \<le> 2 * x
                \<and> 2 * x < pow2 (binaryExponent (2 * x) + 1)"
        using "1.IH"(1) x0 1 by simp
      have e: "binaryExponent x = binaryExponent (2 * x) - 1"
        using x0 1 by (rule binaryExponent_lt1)
      have "pow2 (binaryExponent (2 * x) - 1) \<le> x"
        using ih by (simp add: pow2_pred)
      moreover have "x < pow2 (binaryExponent (2 * x))"
        using ih by (simp add: pow2_succ)
      ultimately show ?thesis by (simp add: e)
    next
      case 2
      have ih: "pow2 (binaryExponent (x / 2)) \<le> x / 2
                \<and> x / 2 < pow2 (binaryExponent (x / 2) + 1)"
        using "1.IH"(2) x0 2 by simp
      have e: "binaryExponent x = binaryExponent (x / 2) + 1"
        using 2 by (rule binaryExponent_ge2)
      have s1: "pow2 (binaryExponent x) = 2 * pow2 (binaryExponent (x / 2))"
        unfolding e by (rule pow2_succ)
      have s2: "pow2 (binaryExponent x + 1) = 2 * pow2 (binaryExponent (x / 2) + 1)"
        unfolding e by (rule pow2_succ)
      have "2 * pow2 (binaryExponent (x / 2)) \<le> x"
        using ih by simp
      moreover have "x < 2 * pow2 (binaryExponent (x / 2) + 1)"
        using ih by simp
      ultimately show ?thesis by (simp only: s1 s2)
    next
      case 3
      then have "binaryExponent x = 0" by (rule binaryExponent_unit)
      then show ?thesis using 3 by simp
    qed
  qed
qed

lemma binaryExponent_bounds:
  "0 < x \<Longrightarrow> pow2 (binaryExponent x) \<le> x"
  "0 < x \<Longrightarrow> x < pow2 (binaryExponent x + 1)"
  using binaryExponent_bounds_aux [of x] by simp_all

lemma binaryExponent_unique:
  assumes "0 < x" "pow2 e \<le> x" "x < pow2 (e + 1)"
  shows "binaryExponent x = e"
proof -
  have "pow2 e < pow2 (binaryExponent x + 1)"
    using assms(2) binaryExponent_bounds(2) [OF assms(1)] by (rule le_less_trans)
  moreover have "pow2 (binaryExponent x) < pow2 (e + 1)"
    using binaryExponent_bounds(1) [OF assms(1)] assms(3) by (rule le_less_trans)
  ultimately show ?thesis by simp
qed

lemma roundEven_floor: "\<lfloor>m\<rfloor> \<le> roundEven m \<and> roundEven m \<le> \<lfloor>m\<rfloor> + 1"
  by (simp add: roundEven_def Let_def)

lemma roundEven_near: "\<bar>of_int (roundEven m) - m\<bar> \<le> 1 / 2"
proof -
  have f: "of_int \<lfloor>m\<rfloor> \<le> m" "m < of_int \<lfloor>m\<rfloor> + 1"
    by linarith+
  show ?thesis
    using f by (auto simp: roundEven_def Let_def abs_le_iff)
qed

lemma roundEven_of_int [simp]: "roundEven (of_int n) = n"
  by (simp add: roundEven_def Let_def)

lemma roundEven_ge: "of_int n \<le> m \<Longrightarrow> n \<le> roundEven m"
proof -
  assume "of_int n \<le> m"
  then have "n \<le> \<lfloor>m\<rfloor>" by (simp add: le_floor_iff)
  then show ?thesis using roundEven_floor [of m] by linarith
qed

lemma roundEven_le: "m \<le> of_int n \<Longrightarrow> roundEven m \<le> n"
proof (cases "m = of_int n")
  case True
  then show ?thesis by simp
next
  case False
  assume "m \<le> of_int n"
  with False have "m < of_int n" by simp
  then have "\<lfloor>m\<rfloor> < n" by (simp add: floor_less_iff)
  then show ?thesis using roundEven_floor [of m] by linarith
qed

lemma roundDouble_pos_eq:
  "0 < x \<Longrightarrow>
   roundDouble x = of_int (roundEven (x / pow2 (binaryExponent x - 52)))
                     * pow2 (binaryExponent x - 52)"
  by (simp add: roundDouble_def Let_def)

lemma roundDouble_minus: "roundDouble (- x) = - roundDouble x"
  by (simp add: roundDouble_def Let_def)

lemma roundDouble_range:
  assumes "0 < x"
  shows "pow2 (binaryExponent x) \<le> roundDouble x"
    and "roundDouble x \<le> pow2 (binaryExponent x + 1)"
proof -
  define e where "e = binaryExponent x"
  define u where "u = pow2 (e - 52)"
  define m where "m = x / u"
  have u0: "0 < u" by (simp add: u_def)
  have pe: "pow2 e = 2 ^ 52 * u" unfolding u_def by (rule pow2_52)
  have pe1: "pow2 (e + 1) = 2 ^ 53 * u" by (simp add: pow2_succ pe)
  have lo: "pow2 e \<le> x" and hi: "x < pow2 (e + 1)"
    unfolding e_def using binaryExponent_bounds [OF assms] by simp_all
  have "2 ^ 52 * u \<le> m * u" using lo u0 by (simp add: m_def pe)
  then have mlo: "of_int (2 ^ 52) \<le> m" using u0 by simp
  have "m * u \<le> 2 ^ 53 * u" using hi u0 by (simp add: m_def pe1)
  then have mhi: "m \<le> of_int (2 ^ 53)" using u0 by simp
  have r: "roundDouble x = of_int (roundEven m) * u"
    using roundDouble_pos_eq [OF assms] by (simp add: m_def u_def e_def)
  have "of_int (2 ^ 52) * u \<le> (of_int (roundEven m) :: rat) * u"
    using roundEven_ge [OF mlo] u0 by (simp del: of_int_power of_int_numeral)
  then show "pow2 (binaryExponent x) \<le> roundDouble x"
    by (simp add: r pe e_def [symmetric])
  have "(of_int (roundEven m) :: rat) * u \<le> of_int (2 ^ 53) * u"
    using roundEven_le [OF mhi] u0 by (simp del: of_int_power of_int_numeral)
  then show "roundDouble x \<le> pow2 (binaryExponent x + 1)"
    by (simp add: r pe1 e_def [symmetric])
qed

lemma roundDouble_error_pos:
  assumes "0 < x"
  shows "\<bar>roundDouble x - x\<bar> \<le> x / 2 ^ 53"
proof -
  define e where "e = binaryExponent x"
  define u where "u = pow2 (e - 52)"
  define m where "m = x / u"
  have u0: "0 < u" by (simp add: u_def)
  have pe: "pow2 e = 2 ^ 52 * u" unfolding u_def by (rule pow2_52)
  have lo: "pow2 e \<le> x"
    unfolding e_def using binaryExponent_bounds [OF assms] by simp
  have x: "x = m * u" using u0 by (simp add: m_def)
  have r: "roundDouble x = of_int (roundEven m) * u"
    using roundDouble_pos_eq [OF assms] by (simp add: m_def u_def e_def)
  have "roundDouble x - x = (of_int (roundEven m) - m) * u"
    by (simp add: r left_diff_distrib x [symmetric])
  then have "\<bar>roundDouble x - x\<bar> = \<bar>of_int (roundEven m) - m\<bar> * \<bar>u\<bar>"
    by (simp only: abs_mult)
  also have "\<dots> = \<bar>of_int (roundEven m) - m\<bar> * u"
    using u0 by simp
  finally have "\<bar>roundDouble x - x\<bar> = \<bar>of_int (roundEven m) - m\<bar> * u" .
  also have "\<dots> \<le> (1 / 2) * u"
    using roundEven_near [of m] u0 by (simp only: mult_right_mono less_imp_le)
  also have "\<dots> = pow2 e / 2 ^ 53" by (simp add: pe)
  also have "\<dots> \<le> x / 2 ^ 53" using lo by (simp add: divide_right_mono)
  finally show ?thesis .
qed

lemma roundDouble_error: "\<bar>roundDouble x - x\<bar> \<le> \<bar>x\<bar> / 2 ^ 53"
proof -
  consider "x = 0" | "0 < x" | "x < 0" by linarith
  then show ?thesis
  proof cases
    case 1
    then show ?thesis by simp
  next
    case 2
    then show ?thesis using roundDouble_error_pos [of x] by simp
  next
    case 3
    then have "\<bar>roundDouble (- x) - (- x)\<bar> \<le> (- x) / 2 ^ 53"
      by (intro roundDouble_error_pos) simp
    then show ?thesis using 3 by (simp add: roundDouble_minus abs_minus_commute)
  qed
qed

lemma roundDouble_pos: "0 < x \<Longrightarrow> 0 < roundDouble x"
  using roundDouble_range(1) [of x] pow2_pos [of "binaryExponent x"] by linarith

lemma roundDouble_neg: "x < 0 \<Longrightarrow> roundDouble x < 0"
  using roundDouble_pos [of "- x"] by (simp add: roundDouble_minus)

lemma roundDouble_nonneg: "0 \<le> x \<Longrightarrow> 0 \<le> roundDouble x"
  using roundDouble_pos [of x] by (cases "x = 0") (simp_all add: less_imp_le)

lemma roundDouble_eq_0_iff [simp]: "roundDouble x = 0 \<longleftrightarrow> x = 0"
proof
  assume z: "roundDouble x = 0"
  show "x = 0"
  proof (rule ccontr)
    assume "x \<noteq> 0"
    then consider "0 < x" | "x < 0" by linarith
    then show False
    proof cases
      case 1
      then show False using roundDouble_pos [of x] z by simp
    next
      case 2
      then show False using roundDouble_neg [of x] z by simp
    qed
  qed
next
  assume "x = 0"
  then show "roundDouble x = 0" by simp
qed

lemma roundDouble_ge_pow2:
  assumes "pow2 e \<le> x"
  shows "pow2 e \<le> roundDouble x"
proof -
  have x0: "0 < x" using assms pow2_pos [of e] by linarith
  have "pow2 e < pow2 (binaryExponent x + 1)"
    using assms binaryExponent_bounds(2) [OF x0] by (rule le_less_trans)
  then have "pow2 e \<le> pow2 (binaryExponent x)" by simp
  then show ?thesis using roundDouble_range(1) [OF x0] by linarith
qed

lemma roundDouble_pow2 [simp]: "roundDouble (pow2 e) = pow2 e"
proof -
  have be: "binaryExponent (pow2 e) = e"
    by (rule binaryExponent_unique) simp_all
  have ne: "pow2 (e - 52) \<noteq> 0"
    by (rule pow2_nonzero)
  have q: "pow2 e / pow2 (e - 52) = of_int (2 ^ 52)"
    unfolding pow2_52 [of e] using ne by simp
  have "roundEven (pow2 e / pow2 (e - 52)) = 2 ^ 52"
    unfolding q by (rule roundEven_of_int)
  then have "roundDouble (pow2 e) = of_int (2 ^ 52) * pow2 (e - 52)"
    using roundDouble_pos_eq [of "pow2 e"] by (simp add: be)
  also have "\<dots> = pow2 e"
    using pow2_52 [of e] by simp
  finally show ?thesis .
qed

lemma roundDouble_le_pow2:
  assumes "0 < x" "x \<le> pow2 e"
  shows "roundDouble x \<le> pow2 e"
proof (cases "x = pow2 e")
  case True
  then show ?thesis by simp
next
  case False
  with assms have "x < pow2 e" by simp
  then have "pow2 (binaryExponent x) < pow2 e"
    using binaryExponent_bounds(1) [OF assms(1)] by linarith
  then have "pow2 (binaryExponent x + 1) \<le> pow2 e" by simp
  then show ?thesis using roundDouble_range(2) [OF assms(1)] by linarith
qed

lemma roundDouble_1 [simp]: "roundDouble 1 = 1"
  using roundDouble_pow2 [of 0] by simp

lemma roundDouble_2 [simp]: "roundDouble 2 = 2"
  using roundDouble_pow2 [of 1] by simp

section \<open>Properties of deduplication and selection\<close>

lemma ledgerKey_inj [simp]: "ledgerKey ticker k = ledgerKey ticker k' \<longleftrightarrow> k = k'"
  by (simp add: ledgerKey_def)

lemma isDuplicate_eq:
  "isDuplicate w now ticker k recent =
     (suppressed w now ticker k recent,
      if suppressed w now ticker k recent then recent
      else recent(ledgerKey ticker k \<mapsto> now))"
  by (simp add: isDuplicate_def suppressed_def Let_def split: option.splits)

lemma suppressed_upd_same:
  "now \<noteq> 0 \<Longrightarrow> 0 < w \<Longrightarrow> suppressed w now ticker k (recent(ledgerKey ticker k \<mapsto> now))"
  by (simp add: suppressed_def)

lemma suppressed_upd_other:
  "k' \<noteq> k \<Longrightarrow>
   suppressed w t ticker k' (recent(ledgerKey ticker k \<mapsto> now)) = suppressed w t ticker k' recent"
  by (simp add: suppressed_def)

lemma filter_step:
  "filterNotDuplicate w now ticker (a # as) recent =
     (if suppressed w now ticker (type a) recent
      then filterNotDuplicate w now ticker as recent
      else (a # fst (filterNotDuplicate w now ticker as (recent(ledgerKey ticker (type a) \<mapsto> now))),
            snd (filterNotDuplicate w now ticker as (recent(ledgerKey ticker (type a) \<mapsto> now)))))"
  by (simp add: isDuplicate_eq split: prod.splits)

declare filterNotDuplicate.simps(2) [simp del]

lemma filter_step_pass:
  assumes "\<not> suppressed w now ticker (type a) recent"
    and "r = recent(ledgerKey ticker (type a) \<mapsto> now)"
  shows "fst (filterNotDuplicate w now ticker (a # as) recent)
           = a # fst (filterNotDuplicate w now ticker as r)"
    and "snd (filterNotDuplicate w now ticker (a # as) recent)
           = snd (filterNotDuplicate w now ticker as r)"
  using assms by (simp_all add: filter_step)

lemma filter_step_dup:
  assumes "suppressed w now ticker (type a) recent"
  shows "filterNotDuplicate w now ticker (a # as) recent
           = filterNotDuplicate w now ticker as recent"
  using assms by (simp add: filter_step)

lemma kept_types:
  assumes "now \<noteq> 0" "0 < w"
  shows "set (map type (fst (filterNotDuplicate w now ticker cands recent)))
           = {k \<in> type ` set cands. \<not> suppressed w now ticker k recent}
         \<and> distinct (map type (fst (filterNotDuplicate w now ticker cands recent)))"
proof (induction cands arbitrary: recent)
  case Nil
  show ?case by simp
next
  case (Cons a as)
  show ?case
  proof (cases "suppressed w now ticker (type a) recent")
    case True
    have "{k \<in> type ` set (a # as). \<not> suppressed w now ticker k recent}
            = {k \<in> type ` set as. \<not> suppressed w now ticker k recent}"
      using True by auto
    then show ?thesis using Cons.IH [of recent] True by (simp add: filter_step_dup)
  next
    case False
    define r where "r = recent(ledgerKey ticker (type a) \<mapsto> now)"
    have same: "suppressed w now ticker (type a) r"
      unfolding r_def using assms by (rule suppressed_upd_same)
    have other: "\<And>k. k \<noteq> type a \<Longrightarrow> suppressed w now ticker k r = suppressed w now ticker k recent"
      unfolding r_def by (rule suppressed_upd_other)
    from Cons.IH [of r] have
      s: "set (map type (fst (filterNotDuplicate w now ticker as r)))
            = {k \<in> type ` set as. \<not> suppressed w now ticker k r}"
      and d: "distinct (map type (fst (filterNotDuplicate w now ticker as r)))"
      by blast+
    have notin: "type a \<notin> set (map type (fst (filterNotDuplicate w now ticker as r)))"
      unfolding s using same by blast
    have seteq: "insert (type a) {k \<in> type ` set as. \<not> suppressed w now ticker k r}
                   = {k \<in> type ` set (a # as). \<not> suppressed w now ticker k recent}"
    proof (rule set_eqI)
      fix k
      show "k \<in> insert (type a) {k \<in> type ` set as. \<not> suppressed w now ticker k r}
              \<longleftrightarrow> k \<in> {k \<in> type ` set (a # as). \<not> suppressed w now ticker k recent}"
      proof (cases "k = type a")
        case True
        then show ?thesis using False by simp
      next
        case ne: False
        then show ?thesis using other [OF ne] by simp
      qed
    qed
    have "set (map type (fst (filterNotDuplicate w now ticker (a # as) recent)))
            = insert (type a) (set (map type (fst (filterNotDuplicate w now ticker as r))))"
      using filter_step_pass(1) [OF False r_def] by simp
    moreover have "distinct (map type (fst (filterNotDuplicate w now ticker (a # as) recent)))"
      using filter_step_pass(1) [OF False r_def] d notin by simp
    ultimately show ?thesis using s seteq by simp
  qed
qed

lemma ledger_after:
  assumes "now \<noteq> 0" "0 < w"
  shows "snd (filterNotDuplicate w now ticker cands recent) x
           = (if \<exists>a \<in> set cands. x = ledgerKey ticker (type a) \<and> \<not> suppressed w now ticker (type a) recent
              then Some now else recent x)"
proof (induction cands arbitrary: recent)
  case Nil
  show ?case by simp
next
  case (Cons a as)
  let ?P = "\<lambda>rc b. x = ledgerKey ticker (type b) \<and> \<not> suppressed w now ticker (type b) rc"
  show ?case
  proof (cases "suppressed w now ticker (type a) recent")
    case True
    have eq: "(\<exists>b \<in> set (a # as). ?P recent b) \<longleftrightarrow> (\<exists>b \<in> set as. ?P recent b)"
      using True by auto
    have "snd (filterNotDuplicate w now ticker (a # as) recent) x
            = snd (filterNotDuplicate w now ticker as recent) x"
      using True by (simp only: filter_step_dup)
    also have "\<dots> = (if \<exists>b \<in> set as. ?P recent b then Some now else recent x)"
      by (rule Cons.IH)
    also have "\<dots> = (if \<exists>b \<in> set (a # as). ?P recent b then Some now else recent x)"
      by (simp only: eq)
    finally show ?thesis .
  next
    case False
    define r where "r = recent(ledgerKey ticker (type a) \<mapsto> now)"
    have same: "suppressed w now ticker (type a) r"
      unfolding r_def using assms by (rule suppressed_upd_same)
    have other: "\<And>k. k \<noteq> type a \<Longrightarrow> suppressed w now ticker k r = suppressed w now ticker k recent"
      unfolding r_def by (rule suppressed_upd_other)
    have step: "snd (filterNotDuplicate w now ticker (a # as) recent) x
                  = snd (filterNotDuplicate w now ticker as r) x"
      using filter_step_pass(2) [OF False r_def] by (simp only:)
    have ih: "snd (filterNotDuplicate w now ticker as r) x
                = (if \<exists>b \<in> set as. ?P r b then Some now else r x)"
      by (rule Cons.IH)
    show ?thesis
    proof (cases "x = ledgerKey ticker (type a)")
      case True
      have allsup: "suppressed w now ticker (type b) r"
        if "x = ledgerKey ticker (type b)" for b :: alert
      proof -
        from that True have "type b = type a" by simp
        with same show ?thesis by simp
      qed
      have no: "\<not> (\<exists>b \<in> set as. ?P r b)"
        using allsup by fast
      have yes: "\<exists>b \<in> set (a # as). ?P recent b"
        using True False by simp
      have "snd (filterNotDuplicate w now ticker as r) x = r x"
        using ih no by (simp only: if_False)
      also have "r x = Some now" using True by (simp add: r_def)
      finally show ?thesis using step yes by (simp only: if_True)
    next
      case ne: False
      have bb: "?P r b \<longleftrightarrow> ?P recent b" for b :: alert
      proof (cases "x = ledgerKey ticker (type b)")
        case True
        with ne have "type b \<noteq> type a" by auto
        from other [OF this] show ?thesis by simp
      next
        case False
        then show ?thesis by simp
      qed
      have na: "\<not> ?P recent a" using ne by simp
      have "(\<exists>b \<in> set (a # as). ?P recent b) \<longleftrightarrow> (\<exists>b \<in> set as. ?P recent b)"
        using na by (simp only: set_simps bex_simps) fast
      also have "\<dots> \<longleftrightarrow> (\<exists>b \<in> set as. ?P r b)"
        by (simp only: bb)
      finally have eq: "(\<exists>b \<in> set as. ?P r b) \<longleftrightarrow> (\<exists>b \<in> set (a # as). ?P recent b)"
        by (rule sym)
      have rx: "r x = recent x" using ne by (simp add: r_def)
      have "snd (filterNotDuplicate w now ticker (a # as) recent) x
              = (if \<exists>b \<in> set as. ?P r b then Some now else r x)"
        using step ih by (simp only:)
      also have "\<dots> = (if \<exists>b \<in> set (a # as). ?P recent b then Some now else recent x)"
        by (simp only: eq rx)
      finally show ?thesis .
    qed
  qed
qed

lemma kept_first:
  assumes "now \<noteq> 0" "0 < w"
  shows "a \<in> set (fst (filterNotDuplicate w now ticker cands recent)) \<Longrightarrow>
         find (\<lambda>b. type b = type a) cands = Some a"
proof (induction cands arbitrary: recent)
  case Nil
  then show ?case by simp
next
  case (Cons c cs)
  show ?case
  proof (cases "suppressed w now ticker (type c) recent")
    case True
    let ?kept = "fst (filterNotDuplicate w now ticker cs recent)"
    from Cons.prems True have in_kept: "a \<in> set ?kept" by (simp add: filter_step)
    then have "type a \<in> set (map type ?kept)" by simp
    then have "\<not> suppressed w now ticker (type a) recent"
      using kept_types [OF assms, of ticker cs recent] by auto
    then have "type c \<noteq> type a" using True by auto
    then show ?thesis using Cons.IH [OF in_kept] by simp
  next
    case False
    let ?r = "recent(ledgerKey ticker (type c) \<mapsto> now)"
    let ?kept = "fst (filterNotDuplicate w now ticker cs ?r)"
    from Cons.prems False have or: "a = c \<or> a \<in> set ?kept" by (simp add: filter_step)
    show ?thesis
    proof (cases "a = c")
      case True
      then show ?thesis by simp
    next
      case ne: False
      with or have in_kept: "a \<in> set ?kept" by simp
      then have "type a \<in> set (map type ?kept)" by simp
      then have "\<not> suppressed w now ticker (type a) ?r"
        using kept_types [OF assms, of ticker cs ?r] by auto
      then have "type c \<noteq> type a"
        using suppressed_upd_same [OF assms, of ticker "type c" recent] by auto
      then show ?thesis using Cons.IH [OF in_kept] by simp
    qed
  qed
qed

lemma kept_subseq: "subseq (fst (filterNotDuplicate w now ticker cands recent)) cands"
proof (induction cands arbitrary: recent)
  case Nil
  show ?case by simp
next
  case (Cons a as)
  show ?case
  proof (cases "suppressed w now ticker (type a) recent")
    case True
    have "subseq (fst (filterNotDuplicate w now ticker as recent)) (a # as)"
      using Cons.IH [of recent] by (rule list_emb_Cons)
    then show ?thesis using True by (simp only: filter_step_dup)
  next
    case False
    have "subseq (a # fst (filterNotDuplicate w now ticker as (recent(ledgerKey ticker (type a) \<mapsto> now)))) (a # as)"
      using Cons.IH by (rule subseq_Cons2)
    then show ?thesis using filter_step_pass(1) [OF False refl] by (simp only:)
  qed
qed

lemma selectAlerts_eq:
  "selectAlerts cfg now ticker cands recent =
     (take (maxAlertsPerTicker cfg)
        (sort_key (rank cfg) (fst (filterNotDuplicate (dedupeWindowMs cfg) now ticker cands recent))),
      snd (filterNotDuplicate (dedupeWindowMs cfg) now ticker cands recent))"
  by (simp add: selectAlerts_def split: prod.splits)

lemma scanTicker_fst:
  "fst (scanTicker t cfg now ticker q rows s) =
     fst (selectAlerts cfg now ticker (candidates t ticker q rows (pushPrice ticker q s))
            (recentAlerts (pushPrice ticker q s)))"
  by (simp add: scanTicker_def Let_def split: prod.splits)

lemma recentAlerts_pushPrice [simp]: "recentAlerts (pushPrice ticker q s) = recentAlerts s"
  by (simp add: pushPrice_def split: option.splits)

lemma checkPositions_types:
  "a \<in> set (checkPositions t ticker q rows) \<Longrightarrow> type a = ''nearStopLoss'' \<or> type a = ''nearTarget''"
  by (induction rows)
     (auto simp: stopLossRule_def targetRule_def Let_def split: option.splits if_splits)

lemma priceChangeRule_types: "a \<in> set (priceChangeRule t q) \<Longrightarrow> type a = ''priceChange''"
  by (auto simp: priceChangeRule_def split: option.splits if_splits)

lemma volumeSpikeRule_types: "a \<in> set (volumeSpikeRule t av q) \<Longrightarrow> type a = ''volumeSpike''"
  by (auto simp: volumeSpikeRule_def Let_def split: option.splits if_splits)

lemma rsiRule_types: "a \<in> set (rsiRule t h) \<Longrightarrow> type a = ''rsi''"
  by (auto simp: rsiRule_def split: option.splits if_splits)

lemma emaCrossRule_shape:
  "a \<in> set (emaCrossRule t h) \<Longrightarrow>
     type a = ''maCross'' \<and> (map_of (data a) ''crossType'' = Some (Str ''bullish'')
                               \<or> map_of (data a) ''crossType'' = Some (Str ''bearish''))"
  by (auto simp: emaCrossRule_def split: option.splits if_splits)

lemma smaCrossRule_shape:
  "a \<in> set (smaCrossRule t h) \<Longrightarrow>
     type a = ''maCross'' \<and> (map_of (data a) ''crossType'' = Some (Str ''golden'')
                               \<or> map_of (data a) ''crossType'' = Some (Str ''death''))"
  by (auto simp: smaCrossRule_def split: option.splits if_splits)

lemma find_append_none: "\<forall>x \<in> set xs. \<not> P x \<Longrightarrow> find P (xs @ ys) = find P ys"
  by (induction xs) auto

lemma first_maCross:
  assumes "emaCrossRule t (historyOf s ticker) = [e]"
  shows "find (\<lambda>b. type b = ''maCross'') (candidates t ticker q rows s) = Some e"
proof -
  have te: "type e = ''maCross''"
    using emaCrossRule_shape [of e t "historyOf s ticker"] assms by simp
  have pre: "\<forall>x \<in> set (checkPositions t ticker q rows @ priceChangeRule t q
                @ volumeSpikeRule t (avgVolume s ticker) q @ rsiRule t (historyOf s ticker)).
                \<not> type x = ''maCross''"
    using checkPositions_types priceChangeRule_types volumeSpikeRule_types rsiRule_types
    by fastforce
  have "candidates t ticker q rows s =
          (checkPositions t ticker q rows @ priceChangeRule t q
             @ volumeSpikeRule t (avgVolume s ticker) q @ rsiRule t (historyOf s ticker))
          @ (e # smaCrossRule t (historyOf s ticker))"
    using assms by (simp add: candidates_def checkThresholds_def)
  then show ?thesis using find_append_none [OF pre] te by simp
qed

text \<open>
  Claim C7. For every instrument and kind, with the non-zero time stamps of
  \<^verbatim>\<open>Date.now()\<close>: a candidate that is not suppressed at time \<open>t1\<close> passes and stamps
  the ledger with \<open>t1\<close>; presented again at a time \<open>t2\<close> strictly within the window of
  \<open>t1\<close> it is a duplicate and the ledger keeps \<open>t1\<close>, so exactly one alert (the first)
  has survived; presented at a time \<open>t3\<close> with at least the full window elapsed since
  the ledger time it passes again and the ledger moves to \<open>t3\<close>.
\<close>

theorem dedup_within_and_after_window:
  assumes "t1 \<noteq> 0"
    and "\<not> suppressed w t1 ticker (type a) recent"
  shows "isDuplicate w t1 ticker (type a) recent
           = (False, recent(ledgerKey ticker (type a) \<mapsto> t1))
       \<and> filterNotDuplicate w t1 ticker [a] recent
           = ([a], recent(ledgerKey ticker (type a) \<mapsto> t1))
       \<and> (t2 - t1 < w \<longrightarrow>
            isDuplicate w t2 ticker (type a) (recent(ledgerKey ticker (type a) \<mapsto> t1))
              = (True, recent(ledgerKey ticker (type a) \<mapsto> t1))
            \<and> filterNotDuplicate w t2 ticker [a] (recent(ledgerKey ticker (type a) \<mapsto> t1))
              = ([], recent(ledgerKey ticker (type a) \<mapsto> t1)))
       \<and> (w \<le> t3 - t1 \<longrightarrow>
            isDuplicate w t3 ticker (type a) (recent(ledgerKey ticker (type a) \<mapsto> t1))
              = (False, recent(ledgerKey ticker (type a) \<mapsto> t3))
            \<and> filterNotDuplicate w t3 ticker [a] (recent(ledgerKey ticker (type a) \<mapsto> t1))
              = ([a], recent(ledgerKey ticker (type a) \<mapsto> t3)))"
  using assms by (simp add: filter_step isDuplicate_eq suppressed_def)

theorem dedup_within_and_after_window_witness:
  "(1000::int) \<noteq> 0
   \<and> \<not> suppressed 1800000 1000 ''AAPL'' (type (exAlert ''rsi'')) Map.empty
   \<and> filterNotDuplicate 1800000 1000 ''AAPL'' [exAlert ''rsi''] Map.empty
        = ([exAlert ''rsi''], [ledgerKey ''AAPL'' (type (exAlert ''rsi'')) \<mapsto> 1000])
   \<and> filterNotDuplicate 1800000 1799999 ''AAPL'' [exAlert ''rsi'']
          [ledgerKey ''AAPL'' (type (exAlert ''rsi'')) \<mapsto> 1000]
        = ([], [ledgerKey ''AAPL'' (type (exAlert ''rsi'')) \<mapsto> 1000])
   \<and> filterNotDuplicate 1800000 1801000 ''AAPL'' [exAlert ''rsi'']
          [ledgerKey ''AAPL'' (type (exAlert ''rsi'')) \<mapsto> 1000]
        = ([exAlert ''rsi''], [ledgerKey ''AAPL'' (type (exAlert ''rsi'')) \<mapsto> 1801000])"
proof -
  have h1: "(1000::int) \<noteq> 0" by simp
  have h2: "\<not> suppressed 1800000 1000 ''AAPL'' (type (exAlert ''rsi'')) Map.empty"
    by (simp add: suppressed_def)
  show ?thesis
    using h1 h2
      dedup_within_and_after_window [OF h1 h2, of 1799999 1801000]
    by simp
qed

text \<open>
  Claim C1. With five distinct kinds among the merged candidates, none of them
  suppressed at the (non-zero) time \<open>now\<close>, and a maximum of 3: exactly 3 alerts
  survive the pipeline, the ledger entry of each of the five kinds is set to \<open>now\<close>
  (also for the kinds cut by the truncation), and the same candidate list presented
  again at a time \<open>now2\<close> within the window yields no surviving alert.
\<close>

theorem truncated_kinds_still_stamped:
  assumes now: "0 < now" and now2: "now \<le> now2" "now2 - now < dedupeWindowMs cfg"
    and five: "card (type ` set cands) = 5"
    and fresh: "\<forall>a \<in> set cands. \<not> suppressed (dedupeWindowMs cfg) now ticker (type a) recent"
    and three: "maxAlertsPerTicker cfg = 3"
  shows "length (fst (selectAlerts cfg now ticker cands recent)) = 3
       \<and> (\<forall>a \<in> set cands.
            snd (selectAlerts cfg now ticker cands recent) (ledgerKey ticker (type a)) = Some now)
       \<and> fst (selectAlerts cfg now2 ticker cands (snd (selectAlerts cfg now ticker cands recent))) = []"
proof -
  let ?w = "dedupeWindowMs cfg"
  let ?F = "filterNotDuplicate ?w now ticker cands recent"
  have n0: "now \<noteq> 0" and w0: "0 < ?w" and n20: "now2 \<noteq> 0" using now now2 by auto
  have kinds: "set (map type (fst ?F)) = type ` set cands"
    using kept_types [OF n0 w0, of ticker cands recent] fresh by auto
  have dist: "distinct (map type (fst ?F))"
    using kept_types [OF n0 w0, of ticker cands recent] by simp
  have "length (map type (fst ?F)) = card (set (map type (fst ?F)))"
    using dist by (simp only: distinct_card)
  then have len5: "length (fst ?F) = 5" using kinds five by simp
  have part1: "length (fst (selectAlerts cfg now ticker cands recent)) = 3"
    using len5 three by (simp add: selectAlerts_eq)
  have stamped: "\<forall>a \<in> set cands. snd ?F (ledgerKey ticker (type a)) = Some now"
  proof
    fix a assume a: "a \<in> set cands"
    then have "\<exists>b \<in> set cands. ledgerKey ticker (type a) = ledgerKey ticker (type b)
                 \<and> \<not> suppressed ?w now ticker (type b) recent"
      using fresh by blast
    then show "snd ?F (ledgerKey ticker (type a)) = Some now"
      using ledger_after [OF n0 w0, of ticker cands recent "ledgerKey ticker (type a)"]
      by (simp only: if_True)
  qed
  have supp2: "\<forall>a \<in> set cands. suppressed ?w now2 ticker (type a) (snd ?F)"
    using stamped n0 now2 by (simp add: suppressed_def)
  have "set (map type (fst (filterNotDuplicate ?w now2 ticker cands (snd ?F)))) = {}"
    using kept_types [OF n20 w0, of ticker cands "snd ?F"] supp2 by auto
  then have "fst (filterNotDuplicate ?w now2 ticker cands (snd ?F)) = []" by simp
  then have part3: "fst (selectAlerts cfg now2 ticker cands (snd (selectAlerts cfg now ticker cands recent))) = []"
    by (simp add: selectAlerts_eq)
  show ?thesis using part1 stamped part3 by (simp add: selectAlerts_eq)
qed

theorem truncated_kinds_still_stamped_witness:
  "(0::int) < 1000 \<and> (1000::int) \<le> 301000 \<and> 301000 - 1000 < dedupeWindowMs exCfg
   \<and> card (type ` set exCands) = 5
   \<and> list_all (\<lambda>a. \<not> suppressed (dedupeWindowMs exCfg) 1000 ''AAPL'' (type a) Map.empty) exCands
   \<and> maxAlertsPerTicker exCfg = 3
   \<and> length (fst (selectAlerts exCfg 1000 ''AAPL'' exCands Map.empty)) = 3
   \<and> list_all (\<lambda>a. snd (selectAlerts exCfg 1000 ''AAPL'' exCands Map.empty)
                       (ledgerKey ''AAPL'' (type a)) = Some 1000) exCands
   \<and> fst (selectAlerts exCfg 301000 ''AAPL'' exCands
            (snd (selectAlerts exCfg 1000 ''AAPL'' exCands Map.empty))) = []"
proof -
  have h1: "(0::int) < 1000" by simp
  have h2: "(1000::int) \<le> 301000" by simp
  have h3: "301000 - 1000 < dedupeWindowMs exCfg" by (simp add: exCfg_def)
  have h4: "card (type ` set exCands) = 5" by (simp add: exCands_def exAlert_def)
  have h5: "\<forall>a \<in> set exCands. \<not> suppressed (dedupeWindowMs exCfg) 1000 ''AAPL'' (type a) Map.empty"
    by (simp add: suppressed_def)
  have h6: "maxAlertsPerTicker exCfg = 3" by (simp add: exCfg_def)
  show ?thesis
    unfolding list_all_iff
    using h1 h2 h3 h4 h5 h6 truncated_kinds_still_stamped [OF h1 h2 h3 h4 h5 h6]
    by blast
qed

lemma indexOf_position:
  "indexOf xs x =
     (if x \<in> set xs then int (length (takeWhile (\<lambda>y. y \<noteq> x) xs)) else - 1)"
  by (induction xs) (auto simp: Let_def)

text \<open>
  Claim C9. The final list of a cycle is the list of candidates that survive
  deduplication (a subsequence of the merged candidates, so in the order the rules
  pushed them), ordered by the rank of their kind in the configured priority order with
  ties kept in that order, and cut to the configured maximum. The stable order is
  characterised without reference to the sorting algorithm: it is the only permutation
  of the survivors that is sorted by rank and leaves each class of equal rank in its
  original order. The rank of a kind is its position in the priority order, and \<open>-1\<close>
  (so ahead of every listed kind) for a kind that the order does not list.
\<close>

theorem final_list_is_stable_priority_prefix:
  fixes cfg now ticker cands recent
  defines "kept \<equiv> fst (filterNotDuplicate (dedupeWindowMs cfg) now ticker cands recent)"
  defines "final \<equiv> fst (selectAlerts cfg now ticker cands recent)"
  shows "subseq kept cands
       \<and> (\<forall>L. mset L = mset kept \<and> sorted (map (rank cfg) L)
                \<and> (\<forall>k. filter (\<lambda>a. rank cfg a = k) L = filter (\<lambda>a. rank cfg a = k) kept)
              \<longleftrightarrow> L = sort_key (rank cfg) kept)
       \<and> final = take (maxAlertsPerTicker cfg) (sort_key (rank cfg) kept)
       \<and> length final = min (maxAlertsPerTicker cfg) (length kept)
       \<and> rank cfg a =
           (if type a \<in> set (priorityOrder cfg)
            then int (length (takeWhile (\<lambda>k. k \<noteq> type a) (priorityOrder cfg))) else - 1)
       \<and> fst (scanTicker t cfg now ticker q rows s)
           = fst (selectAlerts cfg now ticker
                    (checkPositions t ticker q rows
                       @ checkThresholds t (historyOf (pushPrice ticker q s) ticker)
                           (avgVolume (pushPrice ticker q s) ticker) q)
                    (recentAlerts s))"
proof -
  have uniq: "L = sort_key (rank cfg) kept"
    if "mset L = mset kept" "sorted (map (rank cfg) L)"
       "\<forall>k. filter (\<lambda>a. rank cfg a = k) L = filter (\<lambda>a. rank cfg a = k) kept" for L
  proof -
    have "sort_key (rank cfg) kept = L"
    proof (rule properties_for_sort_key)
      show "mset L = mset kept" by (rule that(1))
      show "sorted (map (rank cfg) L)" by (rule that(2))
      fix k assume "k \<in> set L"
      have "filter (\<lambda>a. rank cfg a = rank cfg k) L = filter (\<lambda>a. rank cfg a = rank cfg k) kept"
        using that(3) by blast
      then show "filter (\<lambda>x. rank cfg k = rank cfg x) L = filter (\<lambda>x. rank cfg k = rank cfg x) kept"
        by (simp add: eq_commute)
    qed
    then show ?thesis by simp
  qed
  have ex: "mset (sort_key (rank cfg) kept) = mset kept"
       "sorted (map (rank cfg) (sort_key (rank cfg) kept))"
       "\<forall>k. filter (\<lambda>a. rank cfg a = k) (sort_key (rank cfg) kept) = filter (\<lambda>a. rank cfg a = k) kept"
    by (simp_all add: sort_key_stable)
  have char: "\<forall>L. mset L = mset kept \<and> sorted (map (rank cfg) L)
                \<and> (\<forall>k. filter (\<lambda>a. rank cfg a = k) L = filter (\<lambda>a. rank cfg a = k) kept)
              \<longleftrightarrow> L = sort_key (rank cfg) kept"
    using uniq ex by blast
  have sub: "subseq kept cands" unfolding kept_def by (rule kept_subseq)
  have fin: "final = take (maxAlertsPerTicker cfg) (sort_key (rank cfg) kept)"
    unfolding final_def kept_def by (simp add: selectAlerts_eq)
  have len: "length final = min (maxAlertsPerTicker cfg) (length kept)"
    unfolding fin by (simp add: min.commute)
  have sc: "fst (scanTicker t cfg now ticker q rows s)
           = fst (selectAlerts cfg now ticker
                    (checkPositions t ticker q rows
                       @ checkThresholds t (historyOf (pushPrice ticker q s) ticker)
                           (avgVolume (pushPrice ticker q s) ticker) q)
                    (recentAlerts s))"
    by (simp add: scanTicker_fst candidates_def)
  have rk: "rank cfg a =
           (if type a \<in> set (priorityOrder cfg)
            then int (length (takeWhile (\<lambda>k. k \<noteq> type a) (priorityOrder cfg))) else - 1)"
    unfolding rank_def by (rule indexOf_position)
  show ?thesis using sub char fin len rk sc by blast
qed

lemma ex_eval:
  "fst (selectAlerts exCfg 1000 ''AAPL'' exCands Map.empty)
     = map exAlert [''nearStopLoss'', ''nearTarget'', ''volumeSpike'']"
  by (simp add: selectAlerts_def exCfg_def exCands_def exAlert_def filterNotDuplicate.simps
        isDuplicate_def ledgerKey_def rank_def Let_def)

theorem final_list_is_stable_priority_prefix_witness:
  "subseq (fst (filterNotDuplicate (dedupeWindowMs exCfg) 1000 ''AAPL'' exCands Map.empty)) exCands
   \<and> fst (selectAlerts exCfg 1000 ''AAPL'' exCands Map.empty)
       = take (maxAlertsPerTicker exCfg)
           (sort_key (rank exCfg)
              (fst (filterNotDuplicate (dedupeWindowMs exCfg) 1000 ''AAPL'' exCands Map.empty)))
   \<and> fst (selectAlerts exCfg 1000 ''AAPL'' exCands Map.empty)
       = map exAlert [''nearStopLoss'', ''nearTarget'', ''volumeSpike'']"
  using final_list_is_stable_priority_prefix [of exCfg 1000 "''AAPL''" exCands Map.empty] ex_eval
  by blast


lemma isDuplicateAt_eq:
  "isDuplicateAt w nt ns ticker k recent =
     (suppressed w nt ticker k recent,
      if suppressed w nt ticker k recent then recent
      else recent(ledgerKey ticker k \<mapsto> ns))"
  by (simp add: isDuplicateAt_def suppressed_def Let_def split: option.splits)

lemma filterAt_step:
  "filterNotDuplicateAt w clock i ticker (a # as) recent =
     (if suppressed w (fst (clock i)) ticker (type a) recent
      then filterNotDuplicateAt w clock (Suc i) ticker as recent
      else (a # fst (filterNotDuplicateAt w clock (Suc i) ticker as
                       (recent(ledgerKey ticker (type a) \<mapsto> snd (clock i)))),
            snd (filterNotDuplicateAt w clock (Suc i) ticker as
                       (recent(ledgerKey ticker (type a) \<mapsto> snd (clock i))))))"
  by (simp add: isDuplicateAt_eq split: prod.splits)

declare filterNotDuplicateAt.simps(2) [simp del]

lemma filterAt_const:
  "filterNotDuplicateAt w (\<lambda>_. (now, now)) i ticker cands recent
     = filterNotDuplicate w now ticker cands recent"
  by (induction cands arbitrary: recent i) (simp_all add: filterAt_step filter_step)

lemma filterAt_cong:
  "(\<And>j. i \<le> j \<Longrightarrow> j < i + length cands \<Longrightarrow> clock j = clock' j) \<Longrightarrow>
   filterNotDuplicateAt w clock i ticker cands recent
     = filterNotDuplicateAt w clock' i ticker cands recent"
proof (induction cands arbitrary: recent i)
  case Nil
  show ?case by simp
next
  case (Cons a as)
  have here: "clock i = clock' i" using Cons.prems [of i] by simp
  have rest: "filterNotDuplicateAt w clock (Suc i) ticker as r
                = filterNotDuplicateAt w clock' (Suc i) ticker as r" for r
    by (rule Cons.IH) (use Cons.prems in simp)
  show ?case by (simp only: filterAt_step here rest)
qed

lemma suppressed_stamped:
  assumes "0 < lo" "lo \<le> st" "nt < lo + w"
  shows "suppressed w nt ticker k (recent(ledgerKey ticker k \<mapsto> st))"
  using assms by (simp add: suppressed_def)

lemma keptAt_props:
  assumes lo: "0 < lo"
    and span: "\<And>j. lo \<le> fst (clock j) \<and> fst (clock j) < lo + w
                   \<and> lo \<le> snd (clock j) \<and> snd (clock j) < lo + w"
  shows "distinct (map type (fst (filterNotDuplicateAt w clock i ticker cands recent)))
       \<and> (\<forall>a \<in> set (fst (filterNotDuplicateAt w clock i ticker cands recent)).
             \<exists>j. \<not> suppressed w (fst (clock j)) ticker (type a) recent)
       \<and> (\<forall>a \<in> set (fst (filterNotDuplicateAt w clock i ticker cands recent)).
             (\<forall>j. \<not> suppressed w (fst (clock j)) ticker (type a) recent)
               \<longrightarrow> find (\<lambda>b. type b = type a) cands = Some a)"
proof (induction cands arbitrary: recent i)
  case Nil
  show ?case by simp
next
  case (Cons c cs)
  show ?case
  proof (cases "suppressed w (fst (clock i)) ticker (type c) recent")
    case True
    let ?kept = "fst (filterNotDuplicateAt w clock (Suc i) ticker cs recent)"
    have eq: "fst (filterNotDuplicateAt w clock i ticker (c # cs) recent) = ?kept"
      using True by (simp add: filterAt_step)
    from Cons.IH [of "Suc i" recent] have
      d: "distinct (map type ?kept)"
      and e: "\<forall>a \<in> set ?kept. \<exists>j. \<not> suppressed w (fst (clock j)) ticker (type a) recent"
      and f: "\<forall>a \<in> set ?kept. (\<forall>j. \<not> suppressed w (fst (clock j)) ticker (type a) recent)
                 \<longrightarrow> find (\<lambda>b. type b = type a) cs = Some a"
      by blast+
    have f': "find (\<lambda>b. type b = type a) (c # cs) = Some a"
      if "a \<in> set ?kept" "\<forall>j. \<not> suppressed w (fst (clock j)) ticker (type a) recent" for a
    proof -
      from that(2) True have "type c \<noteq> type a" by auto
      then show ?thesis using f that by simp
    qed
    show ?thesis unfolding eq using d e f' by blast
  next
    case False
    define r where "r = recent(ledgerKey ticker (type c) \<mapsto> snd (clock i))"
    let ?kept = "fst (filterNotDuplicateAt w clock (Suc i) ticker cs r)"
    have eq: "fst (filterNotDuplicateAt w clock i ticker (c # cs) recent) = c # ?kept"
      using False by (simp add: filterAt_step r_def)
    have same: "suppressed w (fst (clock j)) ticker (type c) r" for j
      unfolding r_def using lo span [of i] span [of j] by (intro suppressed_stamped [of lo]) auto
    have other: "suppressed w n ticker k r = suppressed w n ticker k recent"
      if "k \<noteq> type c" for k n
      unfolding r_def using that by (rule suppressed_upd_other)
    from Cons.IH [of "Suc i" r] have
      d: "distinct (map type ?kept)"
      and e: "\<forall>a \<in> set ?kept. \<exists>j. \<not> suppressed w (fst (clock j)) ticker (type a) r"
      and f: "\<forall>a \<in> set ?kept. (\<forall>j. \<not> suppressed w (fst (clock j)) ticker (type a) r)
                 \<longrightarrow> find (\<lambda>b. type b = type a) cs = Some a"
      by blast+
    have ne: "type a \<noteq> type c" if "a \<in> set ?kept" for a
      using e that same by metis
    have notin: "type c \<notin> type ` set ?kept"
    proof
      assume "type c \<in> type ` set ?kept"
      then have "\<exists>a \<in> set ?kept. type c = type a" by (simp add: image_iff)
      then show False using ne by fastforce
    qed
    have d': "distinct (map type (c # ?kept))"
      using d notin by simp
    have e': "\<exists>j. \<not> suppressed w (fst (clock j)) ticker (type a) recent"
      if "a \<in> set (c # ?kept)" for a
    proof (cases "a \<in> set ?kept")
      case True
      then show ?thesis using e other [OF ne [OF True]] by blast
    next
      case no: False
      with that have "a = c" by simp
      then show ?thesis using False by blast
    qed
    have f': "find (\<lambda>b. type b = type a) (c # cs) = Some a"
      if "a \<in> set (c # ?kept)" "\<forall>j. \<not> suppressed w (fst (clock j)) ticker (type a) recent" for a
    proof (cases "a \<in> set ?kept")
      case True
      have "\<forall>j. \<not> suppressed w (fst (clock j)) ticker (type a) r"
        using that(2) other [OF ne [OF True]] by simp
      then have "find (\<lambda>b. type b = type a) cs = Some a" using f True by blast
      then show ?thesis using ne [OF True] by simp
    next
      case no: False
      with that have "a = c" by simp
      then show ?thesis by simp
    qed
    show ?thesis unfolding eq using d' e' f' by blast
  qed
qed


lemma selectAlertsAt_eq:
  "selectAlertsAt cfg clock ticker cands recent =
     (take (maxAlertsPerTicker cfg)
        (sort_key (rank cfg)
           (fst (filterNotDuplicateAt (dedupeWindowMs cfg) clock 0 ticker cands recent))),
      snd (filterNotDuplicateAt (dedupeWindowMs cfg) clock 0 ticker cands recent))"
  by (simp add: selectAlertsAt_def split: prod.splits)

lemma scanTickerAt_fst:
  "fst (scanTickerAt t cfg clock ticker q rows s) =
     fst (selectAlertsAt cfg clock ticker (candidates t ticker q rows (pushPrice ticker q s))
            (recentAlerts (pushPrice ticker q s)))"
  by (simp add: scanTickerAt_def Let_def split: prod.splits)

lemma scanTickerAt_const:
  "scanTickerAt t cfg (\<lambda>_. (now, now)) ticker q rows s = scanTicker t cfg now ticker q rows s"
  by (simp add: scanTickerAt_def scanTicker_def selectAlertsAt_def selectAlerts_def filterAt_const)

lemma keptAt_bounded:
  assumes lo: "0 < lo"
    and span: "\<forall>i < length cands. lo \<le> fst (clock i) \<and> fst (clock i) < lo + w
                   \<and> lo \<le> snd (clock i) \<and> snd (clock i) < lo + w"
  shows "distinct (map type (fst (filterNotDuplicateAt w clock 0 ticker cands recent)))
       \<and> (\<forall>a \<in> set (fst (filterNotDuplicateAt w clock 0 ticker cands recent)).
             (\<forall>i < length cands. \<not> suppressed w (fst (clock i)) ticker (type a) recent)
               \<longrightarrow> find (\<lambda>b. type b = type a) cands = Some a)"
proof (cases "cands = []")
  case True
  then show ?thesis by simp
next
  case False
  then have n0: "0 < length cands" by simp
  define clock' where "clock' j = (if j < length cands then clock j else clock 0)" for j
  have span': "lo \<le> fst (clock' j) \<and> fst (clock' j) < lo + w
                   \<and> lo \<le> snd (clock' j) \<and> snd (clock' j) < lo + w" for j
    using span n0 by (simp add: clock'_def)
  have eq: "filterNotDuplicateAt w clock 0 ticker cands recent
              = filterNotDuplicateAt w clock' 0 ticker cands recent"
    by (rule filterAt_cong) (simp add: clock'_def)
  have all: "\<forall>j. \<not> suppressed w (fst (clock' j)) ticker k recent"
    if "\<forall>i < length cands. \<not> suppressed w (fst (clock i)) ticker k recent" for k
    using that n0 by (simp add: clock'_def)
  note props = keptAt_props [of lo clock' w 0 ticker cands recent, OF lo span']
  have d: "distinct (map type (fst (filterNotDuplicateAt w clock' 0 ticker cands recent)))"
    using props by blast
  have f: "find (\<lambda>b. type b = type a) cands = Some a"
    if "a \<in> set (fst (filterNotDuplicateAt w clock' 0 ticker cands recent))"
      and "\<forall>i < length cands. \<not> suppressed w (fst (clock i)) ticker (type a) recent" for a
    using props that(1) all [OF that(2)] by blast
  show ?thesis unfolding eq using d f by blast
qed

text \<open>
  Claim C10, as amended. In a cycle in which every clock reading of the filter pass lies
  in a span shorter than the dedup window, starting at a positive time, the final list
  holds at most one alert of each kind, and an alert in it whose kind the ledger
  suppresses at none of the readings is the first candidate of its kind. So when the EMA
  crossover and the SMA golden or death cross both fire, the two are never both in the
  final list, and the SMA alert is in it only if the ledger suppresses \<open>maCross\<close> at
  some reading of the pass.
\<close>

theorem one_alert_per_kind:
  assumes "0 < lo"
    and "\<forall>i < length (candidates t ticker q rows (pushPrice ticker q s)).
           lo \<le> fst (clock i) \<and> fst (clock i) < lo + dedupeWindowMs cfg
           \<and> lo \<le> snd (clock i) \<and> snd (clock i) < lo + dedupeWindowMs cfg"
  shows "distinct (map type (fst (scanTickerAt t cfg clock ticker q rows s)))
       \<and> (\<forall>a \<in> set (fst (scanTickerAt t cfg clock ticker q rows s)).
             (\<forall>i < length (candidates t ticker q rows (pushPrice ticker q s)).
                \<not> suppressed (dedupeWindowMs cfg) (fst (clock i)) ticker (type a) (recentAlerts s))
             \<longrightarrow> find (\<lambda>b. type b = type a) (candidates t ticker q rows (pushPrice ticker q s))
                   = Some a)
       \<and> (\<forall>e g. emaCrossRule t (historyOf (pushPrice ticker q s) ticker) = [e]
                 \<and> smaCrossRule t (historyOf (pushPrice ticker q s) ticker) = [g]
               \<longrightarrow> \<not> (e \<in> set (fst (scanTickerAt t cfg clock ticker q rows s))
                       \<and> g \<in> set (fst (scanTickerAt t cfg clock ticker q rows s)))
                 \<and> ((\<forall>i < length (candidates t ticker q rows (pushPrice ticker q s)).
                       \<not> suppressed (dedupeWindowMs cfg) (fst (clock i)) ticker ''maCross''
                           (recentAlerts s))
                     \<longrightarrow> g \<notin> set (fst (scanTickerAt t cfg clock ticker q rows s))))"
proof -
  let ?s1 = "pushPrice ticker q s"
  let ?cands = "candidates t ticker q rows ?s1"
  let ?w = "dedupeWindowMs cfg"
  let ?kept = "fst (filterNotDuplicateAt ?w clock 0 ticker ?cands (recentAlerts s))"
  let ?final = "fst (scanTickerAt t cfg clock ticker q rows s)"
  let ?free = "\<lambda>k. \<forall>i < length ?cands. \<not> suppressed ?w (fst (clock i)) ticker k (recentAlerts s)"
  have fin: "?final = take (maxAlertsPerTicker cfg) (sort_key (rank cfg) ?kept)"
    by (simp add: scanTickerAt_fst selectAlertsAt_eq)
  have sub: "set ?final \<subseteq> set ?kept"
    unfolding fin using set_take_subset [of "maxAlertsPerTicker cfg" "sort_key (rank cfg) ?kept"]
    by simp
  note props = keptAt_bounded [of lo ?cands clock ?w ticker "recentAlerts s", OF assms]
  have dk: "distinct (map type ?kept)"
    using props by blast
  then have "distinct (map type (sort_key (rank cfg) ?kept))"
    by (simp add: distinct_map inj_on_def)
  then have "distinct (take (maxAlertsPerTicker cfg) (map type (sort_key (rank cfg) ?kept)))"
    by (rule distinct_take)
  then have p1: "distinct (map type ?final)"
    unfolding fin by (simp add: take_map)
  have p2: "find (\<lambda>b. type b = type a) ?cands = Some a"
    if "a \<in> set ?final" "?free (type a)" for a
  proof -
    from that(1) sub have "a \<in> set ?kept" by blast
    then show ?thesis using props that(2) by blast
  qed
  have p3: "\<not> (e \<in> set ?final \<and> g \<in> set ?final) \<and> (?free ''maCross'' \<longrightarrow> g \<notin> set ?final)"
    if e: "emaCrossRule t (historyOf ?s1 ticker) = [e]"
      and g: "smaCrossRule t (historyOf ?s1 ticker) = [g]" for e g
  proof -
    have tg: "type g = ''maCross''"
      and dg: "map_of (data g) ''crossType'' = Some (Str ''golden'')
               \<or> map_of (data g) ''crossType'' = Some (Str ''death'')"
      using smaCrossRule_shape [of g t "historyOf ?s1 ticker"] g by simp_all
    have te: "type e = ''maCross''"
      and de: "map_of (data e) ''crossType'' = Some (Str ''bullish'')
               \<or> map_of (data e) ''crossType'' = Some (Str ''bearish'')"
      using emaCrossRule_shape [of e t "historyOf ?s1 ticker"] e by simp_all
    have ne: "g \<noteq> e" using dg de by auto
    have both: "\<not> (e \<in> set ?final \<and> g \<in> set ?final)"
    proof
      assume eg: "e \<in> set ?final \<and> g \<in> set ?final"
      have inj: "inj_on type (set ?final)"
        using p1 by (simp add: distinct_map)
      have "type g = type e" using tg te by simp
      then have "g = e" using inj eg by (auto dest: inj_onD)
      with ne show False by simp
    qed
    have first: "g \<notin> set ?final" if fr: "?free ''maCross''"
    proof
      assume gin: "g \<in> set ?final"
      have "find (\<lambda>b. type b = type g) ?cands = Some g"
        using gin fr unfolding tg [symmetric] by (rule p2)
      then have "find (\<lambda>b. type b = ''maCross'') ?cands = Some g" by (simp only: tg)
      with first_maCross [OF e] have "g = e" by simp
      with ne show False by simp
    qed
    show ?thesis using both first by blast
  qed
  show ?thesis using p1 p2 p3 by blast
qed

lemma exHist: "historyOf (pushPrice ''X'' exQuote exState) ''X'' = [1, 1, 2]"
  by (simp add: historyOf_def pushPrice_def exState_def exQuote_def mkQuote_def)

lemma exE: "emaCrossRule exT [1, 1, 2] = [exBullish]"
proof -
  have r1: "roundDouble (2) = 2"
  proof -
    have ex: "binaryExponent (2) = 1"
      by (simp add: binaryExponent_step)
    show ?thesis
      by (simp add: roundDouble_def roundEven_def pow2_def Let_def ex)
  qed
  have r2: "roundDouble (1) = 1"
  proof -
    have ex: "binaryExponent (1) = 0"
      by (simp add: binaryExponent_step)
    show ?thesis
      by (simp add: roundDouble_def roundEven_def pow2_def Let_def ex)
  qed
  have r3: "roundDouble (3) = 3"
  proof -
    have ex: "binaryExponent (3) = 1"
      by (simp add: binaryExponent_step)
    show ?thesis
      by (simp add: roundDouble_def roundEven_def pow2_def Let_def ex)
  qed
  have r4: "roundDouble (2 / 3) = 6004799503160661 / 9007199254740992"
  proof -
    have ex: "binaryExponent (2 / 3) = - 1"
      by (simp add: binaryExponent_step)
    show ?thesis
      by (simp add: roundDouble_def roundEven_def pow2_def Let_def ex)
  qed
  have r5: "roundDouble (3002399751580331 / 9007199254740992) = 3002399751580331 / 9007199254740992"
  proof -
    have ex: "binaryExponent (3002399751580331 / 9007199254740992) = - 2"
      by (simp add: binaryExponent_step)
    show ?thesis
      by (simp add: roundDouble_def roundEven_def pow2_def Let_def ex)
  qed
  have r6: "roundDouble (6004799503160661 / 4503599627370496) = 6004799503160661 / 4503599627370496"
  proof -
    have ex: "binaryExponent (6004799503160661 / 4503599627370496) = 0"
      by (simp add: binaryExponent_step)
    show ?thesis
      by (simp add: roundDouble_def roundEven_def pow2_def Let_def ex)
  qed
  have r7: "roundDouble (15011998757901653 / 9007199254740992) = 3752999689475413 / 2251799813685248"
  proof -
    have ex: "binaryExponent (15011998757901653 / 9007199254740992) = 0"
      by (simp add: binaryExponent_step)
    show ?thesis
      by (simp add: roundDouble_def roundEven_def pow2_def Let_def ex)
  qed
  have tf: "toFixed 2 2 = ''2.00''" "toFixed 2 (3752999689475413 / 2251799813685248) = ''1.67''"
    by code_simp+
  have e: "calcEMA [1, 1, 2] (Suc 0) = Some 2" "calcEMA [1, 1, 2] 2 = Some (3752999689475413 / 2251799813685248)"
    "calcEMA [1, 1] (Suc 0) = Some 1" "calcEMA [1, 1] 2 = Some 1"
    by (simp_all add: calcEMA_def reduce_add_def Let_def r1 r2 r3 r4 r5 r6 r7)
  show ?thesis
    by (simp add: emaCrossRule_def exT_def exBullish_def e tf)
qed

lemma exG: "smaCrossRule exT [1, 1, 2] = [exGolden]"
proof -
  have r1: "roundDouble (2) = 2"
  proof -
    have ex: "binaryExponent (2) = 1"
      by (simp add: binaryExponent_step)
    show ?thesis
      by (simp add: roundDouble_def roundEven_def pow2_def Let_def ex)
  qed
  have r2: "roundDouble (1) = 1"
  proof -
    have ex: "binaryExponent (1) = 0"
      by (simp add: binaryExponent_step)
    show ?thesis
      by (simp add: roundDouble_def roundEven_def pow2_def Let_def ex)
  qed
  have r3: "roundDouble (3) = 3"
  proof -
    have ex: "binaryExponent (3) = 1"
      by (simp add: binaryExponent_step)
    show ?thesis
      by (simp add: roundDouble_def roundEven_def pow2_def Let_def ex)
  qed
  have r4: "roundDouble (3 / 2) = 3 / 2"
  proof -
    have ex: "binaryExponent (3 / 2) = 0"
      by (simp add: binaryExponent_step)
    show ?thesis
      by (simp add: roundDouble_def roundEven_def pow2_def Let_def ex)
  qed
  have tf: "toFixed 2 2 = ''2.00''" "toFixed 2 (3 / 2) = ''1.50''"
    by code_simp+
  have e: "calcSMA [1, 1, 2] (Suc 0) = Some 2" "calcSMA [1, 1, 2] 2 = Some (3 / 2)"
    "calcSMA [1, 1] (Suc 0) = Some 1" "calcSMA [1, 1] 2 = Some 1"
    by (simp_all add: calcSMA_def reduce_add_def slice_last_def Let_def r1 r2 r3 r4)
  show ?thesis
    by (simp add: smaCrossRule_def exT_def exGolden_def e tf)
qed

lemma exCandidates:
  "candidates exT ''X'' exQuote [] (pushPrice ''X'' exQuote exState) = [exBullish, exGolden]"
proof -
  have q: "changePct exQuote = None" by (simp add: exQuote_def mkQuote_def)
  have v: "avgVolume (pushPrice ''X'' exQuote exState) ''X'' = None"
    by (simp add: pushPrice_def exState_def)
  have r: "rsiRule exT [1, 1, 2] = []"
    by (simp add: rsiRule_def calcRSI_def)
  show ?thesis
    by (simp add: candidates_def checkThresholds_def priceChangeRule_def volumeSpikeRule_def
          q v r exHist exE exG)
qed

lemma exRanks: "rank exCfg exBullish = 2" "rank exCfg exGolden = 2"
  by (simp_all add: rank_def exCfg_def exBullish_def exGolden_def Let_def)

lemma exTypes: "type exBullish = ''maCross''" "type exGolden = ''maCross''"
  by (simp_all add: exBullish_def exGolden_def)

lemma exRecent: "recentAlerts exState = Map.empty"
  by (simp add: exState_def)

lemma exScan:
  "fst (scanTickerAt exT exCfg exClock ''X'' exQuote [] exState) = [exBullish]"
proof -
  have k: "fst (filterNotDuplicateAt (dedupeWindowMs exCfg) exClock 0 ''X''
                  [exBullish, exGolden] Map.empty) = [exBullish]"
    by (simp add: filterAt_step suppressed_def exTypes exClock_def exCfg_def)
  have "fst (scanTickerAt exT exCfg exClock ''X'' exQuote [] exState)
          = take (maxAlertsPerTicker exCfg) (sort_key (rank exCfg) [exBullish])"
    by (simp only: scanTickerAt_fst selectAlertsAt_eq fst_conv exCandidates
          recentAlerts_pushPrice exRecent k)
  then show ?thesis by (simp add: exCfg_def)
qed

theorem one_alert_per_kind_witness:
  "(0::int) < 1000
   \<and> candidates exT ''X'' exQuote [] (pushPrice ''X'' exQuote exState) = [exBullish, exGolden]
   \<and> list_all (\<lambda>i. 1000 \<le> fst (exClock i) \<and> fst (exClock i) < 1000 + dedupeWindowMs exCfg
                  \<and> 1000 \<le> snd (exClock i) \<and> snd (exClock i) < 1000 + dedupeWindowMs exCfg)
        [0..<2]
   \<and> emaCrossRule exT (historyOf (pushPrice ''X'' exQuote exState) ''X'') = [exBullish]
   \<and> smaCrossRule exT (historyOf (pushPrice ''X'' exQuote exState) ''X'') = [exGolden]
   \<and> fst (scanTickerAt exT exCfg exClock ''X'' exQuote [] exState) = [exBullish]
   \<and> distinct (map type (fst (scanTickerAt exT exCfg exClock ''X'' exQuote [] exState)))
   \<and> \<not> (exBullish \<in> set (fst (scanTickerAt exT exCfg exClock ''X'' exQuote [] exState))
          \<and> exGolden \<in> set (fst (scanTickerAt exT exCfg exClock ''X'' exQuote [] exState)))"
proof -
  have h1: "(0::int) < 1000" by simp
  have la: "list_all (\<lambda>i. 1000 \<le> fst (exClock i) \<and> fst (exClock i) < 1000 + dedupeWindowMs exCfg
                  \<and> 1000 \<le> snd (exClock i) \<and> snd (exClock i) < 1000 + dedupeWindowMs exCfg)
        [0..<2]"
    by (simp add: exClock_def exCfg_def upt_rec)
  have h2: "\<forall>i < length (candidates exT ''X'' exQuote [] (pushPrice ''X'' exQuote exState)).
           1000 \<le> fst (exClock i) \<and> fst (exClock i) < 1000 + dedupeWindowMs exCfg
           \<and> 1000 \<le> snd (exClock i) \<and> snd (exClock i) < 1000 + dedupeWindowMs exCfg"
    by (simp add: exCandidates exClock_def exCfg_def)
  have e: "emaCrossRule exT (historyOf (pushPrice ''X'' exQuote exState) ''X'') = [exBullish]"
    by (simp only: exHist exE)
  have g: "smaCrossRule exT (historyOf (pushPrice ''X'' exQuote exState) ''X'') = [exGolden]"
    by (simp only: exHist exG)
  show ?thesis
    using h1 la e g exScan exCandidates
      one_alert_per_kind [where lo = 1000 and t = exT and ticker = "''X''" and q = exQuote
         and rows = "[]" and s = exState and clock = exClock and cfg = exCfg, OF h1 h2]
    by blast
qed

text \<open>
  The claim as stated, for every cycle, fails for a dedup window of 0, a setting that
  the code accepts: nothing is ever a duplicate, and the EMA crossover and the golden
  cross, both of kind \<open>maCross\<close>, are both in the final list. This is so with a clock
  that advances and with all readings at the same instant.
\<close>

theorem two_alerts_of_one_kind_counterexample:
  "fst (scanTickerAt exT (exCfg\<lparr>dedupeWindowMs := 0\<rparr>) exClock ''X'' exQuote [] exState)
     = [exBullish, exGolden]
   \<and> fst (scanTicker exT (exCfg\<lparr>dedupeWindowMs := 0\<rparr>) 1000 ''X'' exQuote [] exState)
     = [exBullish, exGolden]
   \<and> map type [exBullish, exGolden] = [''maCross'', ''maCross'']"
proof -
  have r: "rank (exCfg\<lparr>dedupeWindowMs := 0\<rparr>) exBullish = 2"
    "rank (exCfg\<lparr>dedupeWindowMs := 0\<rparr>) exGolden = 2"
    by (simp_all add: rank_def exCfg_def exBullish_def exGolden_def Let_def)
  have w: "dedupeWindowMs (exCfg\<lparr>dedupeWindowMs := 0\<rparr>) = 0"
    "maxAlertsPerTicker (exCfg\<lparr>dedupeWindowMs := 0\<rparr>) = 3"
    by (simp_all add: exCfg_def)
  have k: "fst (filterNotDuplicateAt 0 exClock 0 ''X'' [exBullish, exGolden] Map.empty)
             = [exBullish, exGolden]"
    by (simp add: filterAt_step suppressed_def exTypes exClock_def)
  have k': "fst (filterNotDuplicate 0 1000 ''X'' [exBullish, exGolden] Map.empty)
             = [exBullish, exGolden]"
    by (simp add: filter_step suppressed_def exTypes)
  have "fst (scanTickerAt exT (exCfg\<lparr>dedupeWindowMs := 0\<rparr>) exClock ''X'' exQuote [] exState)
     = take 3 (sort_key (rank (exCfg\<lparr>dedupeWindowMs := 0\<rparr>)) [exBullish, exGolden])"
    by (simp only: scanTickerAt_fst selectAlertsAt_eq fst_conv exCandidates
          recentAlerts_pushPrice exRecent w k)
  then have a: "fst (scanTickerAt exT (exCfg\<lparr>dedupeWindowMs := 0\<rparr>) exClock ''X'' exQuote [] exState)
     = [exBullish, exGolden]"
    by (simp add: r)
  have "fst (scanTicker exT (exCfg\<lparr>dedupeWindowMs := 0\<rparr>) 1000 ''X'' exQuote [] exState)
     = take 3 (sort_key (rank (exCfg\<lparr>dedupeWindowMs := 0\<rparr>)) [exBullish, exGolden])"
    by (simp only: scanTicker_fst selectAlerts_eq fst_conv exCandidates
          recentAlerts_pushPrice exRecent w k')
  then have b: "fst (scanTicker exT (exCfg\<lparr>dedupeWindowMs := 0\<rparr>) 1000 ''X'' exQuote [] exState)
     = [exBullish, exGolden]"
    by (simp add: r)
  show ?thesis using a b by (simp add: exTypes)
qed

section \<open>Properties of the threshold and position rules\<close>

lemma toFixed_3: "toFixed 2 3 = ''3.00''" by code_simp

lemma toFixed_5: "toFixed 2 5 = ''5.00''" by code_simp

lemma filter_type_none:
  "\<forall>a \<in> set xs. type a \<noteq> k \<Longrightarrow> filter (\<lambda>a. type a = k) xs = []"
  by (induction xs) auto

lemma filter_type_all:
  "\<forall>a \<in> set xs. type a = k \<Longrightarrow> filter (\<lambda>a. type a = k) xs = xs"
  by (induction xs) auto

lemma priceChange_only:
  "filter (\<lambda>a. type a = ''priceChange'') (checkThresholds t history avgVol q) = priceChangeRule t q"
proof -
  have 1: "filter (\<lambda>a. type a = ''priceChange'') (priceChangeRule t q) = priceChangeRule t q"
    by (rule filter_type_all) (auto dest: priceChangeRule_types)
  have 2: "filter (\<lambda>a. type a = ''priceChange'') (volumeSpikeRule t avgVol q) = []"
    by (rule filter_type_none) (auto dest: volumeSpikeRule_types)
  have 3: "filter (\<lambda>a. type a = ''priceChange'') (rsiRule t history) = []"
    by (rule filter_type_none) (auto dest: rsiRule_types)
  have 4: "filter (\<lambda>a. type a = ''priceChange'') (emaCrossRule t history) = []"
    by (rule filter_type_none) (auto dest: emaCrossRule_shape)
  have 5: "filter (\<lambda>a. type a = ''priceChange'') (smaCrossRule t history) = []"
    by (rule filter_type_none) (auto dest: smaCrossRule_shape)
  show ?thesis by (simp add: checkThresholds_def 1 2 3 4 5)
qed


lemma priceChange_at_103:
  "priceChangeRule (t\<lparr>priceChangePct := 2\<rparr>) (mkQuote 103 v (Some 100))
     = [\<lparr>type = ''priceChange'', severity = MEDIUM,
         data = [(''changePct'', Str ''3.00''), (''price'', Num 103), (''prevClose'', Num 100)]\<rparr>]"
proof -
  have r1: "roundDouble (3) = 3"
  proof -
    have ex: "binaryExponent (3) = 1"
      by (simp add: binaryExponent_step)
    show ?thesis
      by (simp add: roundDouble_def roundEven_def pow2_def Let_def ex)
  qed
  have r2: "roundDouble (3 / 100) = 1080863910568919 / 36028797018963968"
  proof -
    have ex: "binaryExponent (3 / 100) = - 6"
      by (simp add: binaryExponent_step)
    show ?thesis
      by (simp add: roundDouble_def roundEven_def pow2_def Let_def ex)
  qed
  have r3: "roundDouble (27021597764222975 / 9007199254740992) = 3"
  proof -
    have ex: "binaryExponent (27021597764222975 / 9007199254740992) = 1"
      by (simp add: binaryExponent_step)
    show ?thesis
      by (simp add: roundDouble_def roundEven_def pow2_def Let_def ex)
  qed
  have r4: "roundDouble (4) = 4"
  proof -
    have ex: "binaryExponent (4) = 2"
      by (simp add: binaryExponent_step)
    show ?thesis
      by (simp add: roundDouble_def roundEven_def pow2_def Let_def ex)
  qed
  show ?thesis
    by (simp add: priceChangeRule_def mkQuote_def toFixed_3 toFixed_5 r1 r2 r3 r4)
qed

lemma priceChange_at_105:
  "priceChangeRule (t\<lparr>priceChangePct := 2\<rparr>) (mkQuote 105 v (Some 100))
     = [\<lparr>type = ''priceChange'', severity = HIGH,
         data = [(''changePct'', Str ''5.00''), (''price'', Num 105), (''prevClose'', Num 100)]\<rparr>]"
proof -
  have r1: "roundDouble (5) = 5"
  proof -
    have ex: "binaryExponent (5) = 2"
      by (simp add: binaryExponent_step)
    show ?thesis
      by (simp add: roundDouble_def roundEven_def pow2_def Let_def ex)
  qed
  have r2: "roundDouble (1 / 20) = 3602879701896397 / 72057594037927936"
  proof -
    have ex: "binaryExponent (1 / 20) = - 5"
      by (simp add: binaryExponent_step)
    show ?thesis
      by (simp add: roundDouble_def roundEven_def pow2_def Let_def ex)
  qed
  have r3: "roundDouble (90071992547409925 / 18014398509481984) = 5"
  proof -
    have ex: "binaryExponent (90071992547409925 / 18014398509481984) = 2"
      by (simp add: binaryExponent_step)
    show ?thesis
      by (simp add: roundDouble_def roundEven_def pow2_def Let_def ex)
  qed
  have r4: "roundDouble (4) = 4"
  proof -
    have ex: "binaryExponent (4) = 2"
      by (simp add: binaryExponent_step)
    show ?thesis
      by (simp add: roundDouble_def roundEven_def pow2_def Let_def ex)
  qed
  show ?thesis
    by (simp add: priceChangeRule_def mkQuote_def toFixed_3 toFixed_5 r1 r2 r3 r4)
qed

text \<open>
  Claim C6. With \<open>priceChangePct = 2\<close>, a quote with previous close 100 and price 103
  yields exactly one \<open>priceChange\<close> alert, of severity MEDIUM, whose payload field
  \<open>changePct\<close> is the string \<open>3.00\<close>; at price 105 the alert has severity HIGH. The
  other thresholds, the history, the average volume and the volume are arbitrary.
\<close>

theorem price_change_scenario:
  "filter (\<lambda>a. type a = ''priceChange'')
      (checkThresholds (t\<lparr>priceChangePct := 2\<rparr>) history avgVol (mkQuote 103 v (Some 100)))
     = [\<lparr>type = ''priceChange'', severity = MEDIUM,
         data = [(''changePct'', Str ''3.00''), (''price'', Num 103), (''prevClose'', Num 100)]\<rparr>]
   \<and> filter (\<lambda>a. type a = ''priceChange'')
      (checkThresholds (t\<lparr>priceChangePct := 2\<rparr>) history avgVol (mkQuote 105 v (Some 100)))
     = [\<lparr>type = ''priceChange'', severity = HIGH,
         data = [(''changePct'', Str ''5.00''), (''price'', Num 105), (''prevClose'', Num 100)]\<rparr>]"
  by (simp only: priceChange_only priceChange_at_103 priceChange_at_105 simp_thms)

theorem price_change_scenario_witness:
  "filter (\<lambda>a. type a = ''priceChange'')
      (checkThresholds (exT\<lparr>priceChangePct := 2\<rparr>) [] None (mkQuote 103 0 (Some 100)))
     = [\<lparr>type = ''priceChange'', severity = MEDIUM,
         data = [(''changePct'', Str ''3.00''), (''price'', Num 103), (''prevClose'', Num 100)]\<rparr>]"
  using price_change_scenario [of exT "[]" None 0] by blast


text \<open>
  The payload shows the percent change as the code computes it: from a previous close of
  800 to a price of 829 the change is 3.625 in exact arithmetic, which would print as
  \<open>3.63\<close>, and 3.6249999999999996 in the arithmetic of the code, which prints as
  \<open>3.62\<close>.
\<close>

lemma toFixed_priceChange_at_829: "toFixed 2 (8162774324609023 / 2251799813685248) = ''3.62''" by code_simp

lemma priceChange_at_829:
  "priceChangeRule (t\<lparr>priceChangePct := 2\<rparr>) (mkQuote 829 v (Some 800))
     = [\<lparr>type = ''priceChange'', severity = MEDIUM,
         data = [(''changePct'', Str ''3.62''), (''price'', Num 829), (''prevClose'', Num 800)]\<rparr>]"
proof -
  have r1: "roundDouble (29) = 29"
  proof -
    have ex: "binaryExponent (29) = 4"
      by (simp add: binaryExponent_step)
    show ?thesis
      by (simp add: roundDouble_def roundEven_def pow2_def Let_def ex)
  qed
  have r2: "roundDouble (29 / 800) = 5224175567749775 / 144115188075855872"
  proof -
    have ex: "binaryExponent (29 / 800) = - 5"
      by (simp add: binaryExponent_step)
    show ?thesis
      by (simp add: roundDouble_def roundEven_def pow2_def Let_def ex)
  qed
  have r3: "roundDouble (130604389193744375 / 36028797018963968) = 8162774324609023 / 2251799813685248"
  proof -
    have ex: "binaryExponent (130604389193744375 / 36028797018963968) = 1"
      by (simp add: binaryExponent_step)
    show ?thesis
      by (simp add: roundDouble_def roundEven_def pow2_def Let_def ex)
  qed
  have r4: "roundDouble (4) = 4"
  proof -
    have ex: "binaryExponent (4) = 2"
      by (simp add: binaryExponent_step)
    show ?thesis
      by (simp add: roundDouble_def roundEven_def pow2_def Let_def ex)
  qed
  show ?thesis
    by (simp add: priceChangeRule_def mkQuote_def toFixed_priceChange_at_829 r1 r2 r3 r4)
qed








lemma stop_silent_at_100_93:
  "stopLossRule (t\<lparr>nearStopLossPct := 7\<rparr>) (q\<lparr>price := 100\<rparr>)
     \<lparr>symbol = ticker, stopLoss = Some 93, target = tg, status = ''active''\<rparr>
   = []"
proof -
  have r1: "roundDouble (7) = 7"
  proof -
    have ex: "binaryExponent (7) = 2"
      by (simp add: binaryExponent_step)
    show ?thesis
      by (simp add: roundDouble_def roundEven_def pow2_def Let_def ex)
  qed
  have r2: "roundDouble (7 / 100) = 1261007895663739 / 18014398509481984"
  proof -
    have ex: "binaryExponent (7 / 100) = - 4"
      by (simp add: binaryExponent_step)
    show ?thesis
      by (simp add: roundDouble_def roundEven_def pow2_def Let_def ex)
  qed
  have r3: "roundDouble (31525197391593475 / 4503599627370496) = 7881299347898369 / 1125899906842624"
  proof -
    have ex: "binaryExponent (31525197391593475 / 4503599627370496) = 2"
      by (simp add: binaryExponent_step)
    show ?thesis
      by (simp add: roundDouble_def roundEven_def pow2_def Let_def ex)
  qed
  show ?thesis
    by (simp add: stopLossRule_def Let_def r1 r2 r3)
qed

lemma toFixed_stop_prints_19: "toFixed (Suc 0) (8782019273372467 / 4503599627370496) = ''1.9''" by code_simp

lemma stop_prints_19:
  "stopLossRule (t\<lparr>nearStopLossPct := 2\<rparr>) (q\<lparr>price := 2000\<rparr>)
     \<lparr>symbol = ticker, stopLoss = Some 1961, target = tg, status = ''active''\<rparr>
   = [\<lparr>type = ''nearStopLoss'', severity = CRITICAL,
       data = [(''price'', Num 2000), (''stopLoss'', Num 1961), (''distancePct'', Str ''1.9'')]\<rparr>]"
proof -
  have r1: "roundDouble (39) = 39"
  proof -
    have ex: "binaryExponent (39) = 5"
      by (simp add: binaryExponent_step)
    show ?thesis
      by (simp add: roundDouble_def roundEven_def pow2_def Let_def ex)
  qed
  have r2: "roundDouble (39 / 2000) = 5620492334958379 / 288230376151711744"
  proof -
    have ex: "binaryExponent (39 / 2000) = - 6"
      by (simp add: binaryExponent_step)
    show ?thesis
      by (simp add: roundDouble_def roundEven_def pow2_def Let_def ex)
  qed
  have r3: "roundDouble (140512308373959475 / 72057594037927936) = 8782019273372467 / 4503599627370496"
  proof -
    have ex: "binaryExponent (140512308373959475 / 72057594037927936) = 0"
      by (simp add: binaryExponent_step)
    show ?thesis
      by (simp add: roundDouble_def roundEven_def pow2_def Let_def ex)
  qed
  show ?thesis
    by (simp add: stopLossRule_def Let_def r1 r2 r3 toFixed_stop_prints_19)
qed





lemma volumeSpike_at_296:
  "volumeSpikeRule (t\<lparr>volumeSpikeMultiplier := 2\<rparr>) (Some 100) (q\<lparr>volume := 296\<rparr>)
     = [\<lparr>type = ''volumeSpike'', severity = HIGH,
         data = [(''volume'', Num 296), (''avgVolume'', Num 100), (''multiple'', Num (3))]\<rparr>]"
proof -
  have r1: "roundDouble (200) = 200"
  proof -
    have ex: "binaryExponent (200) = 7"
      by (simp add: binaryExponent_step)
    show ?thesis
      by (simp add: roundDouble_def roundEven_def pow2_def Let_def ex)
  qed
  have r2: "roundDouble (74 / 25) = 3332663724254167 / 1125899906842624"
  proof -
    have ex: "binaryExponent (74 / 25) = 1"
      by (simp add: binaryExponent_step)
    show ?thesis
      by (simp add: roundDouble_def roundEven_def pow2_def Let_def ex)
  qed
  have r3: "roundDouble (3) = 3"
  proof -
    have ex: "binaryExponent (3) = 1"
      by (simp add: binaryExponent_step)
    show ?thesis
      by (simp add: roundDouble_def roundEven_def pow2_def Let_def ex)
  qed
  have tv: "toFixedVal (Suc 0) (3332663724254167 / 1125899906842624) = 3"
    by (simp add: toFixedVal_def toFixedN_def)
  show ?thesis
    by (simp add: volumeSpikeRule_def parseFixed_def Let_def mathRound_def r1 r2 r3 tv)
qed

lemma volumeSpike_at_365:
  "volumeSpikeRule (t\<lparr>volumeSpikeMultiplier := 2\<rparr>) (Some 100) (q\<lparr>volume := 365\<rparr>)
     = [\<lparr>type = ''volumeSpike'', severity = HIGH,
         data = [(''volume'', Num 365), (''avgVolume'', Num 100), (''multiple'', Num (8106479329266893 / 2251799813685248))]\<rparr>]"
proof -
  have r1: "roundDouble (200) = 200"
  proof -
    have ex: "binaryExponent (200) = 7"
      by (simp add: binaryExponent_step)
    show ?thesis
      by (simp add: roundDouble_def roundEven_def pow2_def Let_def ex)
  qed
  have r2: "roundDouble (73 / 20) = 8219069319951155 / 2251799813685248"
  proof -
    have ex: "binaryExponent (73 / 20) = 1"
      by (simp add: binaryExponent_step)
    show ?thesis
      by (simp add: roundDouble_def roundEven_def pow2_def Let_def ex)
  qed
  have r3: "roundDouble (18 / 5) = 8106479329266893 / 2251799813685248"
  proof -
    have ex: "binaryExponent (18 / 5) = 1"
      by (simp add: binaryExponent_step)
    show ?thesis
      by (simp add: roundDouble_def roundEven_def pow2_def Let_def ex)
  qed
  have tv: "toFixedVal (Suc 0) (8219069319951155 / 2251799813685248) = 18 / 5"
    by (simp add: toFixedVal_def toFixedN_def)
  show ?thesis
    by (simp add: volumeSpikeRule_def parseFixed_def Let_def mathRound_def r1 r2 r3 tv)
qed

text \<open>
  Claim C2. The alert is emitted iff the volume exceeds the product of a valid (present
  and non-zero) average and \<open>volumeSpikeMultiplier\<close>, as claimed. The severity is not
  decided on the realised multiple: the code decides it on the string that shows the
  multiple with one decimal, read back as a number. At volume 296 against an average of
  100, with multiplier 2 (the other thresholds and fields of the quote are arbitrary),
  the alert is HIGH and its payload shows the multiple 3, while the realised multiple,
  the quotient \<^verbatim>\<open>quote.volume / avgVolume[ticker]\<close> as the code computes it, and the
  exact quotient 2.96 as well, is below 3.0.
\<close>

theorem volume_spike_high_below_three:
  "volumeSpikeRule (t\<lparr>volumeSpikeMultiplier := 2\<rparr>) (Some 100) (q\<lparr>volume := 296\<rparr>)
     = [\<lparr>type = ''volumeSpike'', severity = HIGH,
         data = [(''volume'', Num 296), (''avgVolume'', Num 100), (''multiple'', Num 3)]\<rparr>]
   \<and> roundDouble (296 / 100) < 3
   \<and> (296 :: rat) / 100 < 3"
proof -
  have m: "roundDouble (296 / 100) = 3332663724254167 / 1125899906842624"
  proof -
    have arg: "(296 / 100 :: rat) = 74 / 25" by simp
    have ex: "binaryExponent (74 / 25) = 1"
      by (simp add: binaryExponent_step)
    show ?thesis
      unfolding arg by (simp add: roundDouble_def roundEven_def pow2_def Let_def ex)
  qed
  have "roundDouble (296 / 100) < 3" unfolding m by simp
  then show ?thesis by (simp add: volumeSpike_at_296)
qed

section \<open>Properties of the indicators\<close>

lemma deltas_simps [simp]:
  "deltas [] = []" "deltas [a] = []" "deltas (a # b # rest) = (b - a) # deltas (b # rest)"
  by (simp_all add: deltas_def)













section \<open>Properties of the moving averages\<close>

lemma reduce_add_pos_aux:
  "0 \<le> a \<Longrightarrow> xs \<noteq> [] \<Longrightarrow> \<forall>x \<in> set xs. 0 < x \<Longrightarrow>
   0 < foldl (\<lambda>a b. roundDouble (a + b)) a xs"
proof (induction xs arbitrary: a)
  case Nil
  then show ?case by simp
next
  case (Cons x xs)
  have x0: "0 < x" using Cons.prems(3) by simp
  have s: "0 < roundDouble (a + x)"
    using Cons.prems(1) x0 by (intro roundDouble_pos) linarith
  show ?case
  proof (cases "xs = []")
    case True
    then show ?thesis using s by simp
  next
    case False
    have "0 < foldl (\<lambda>a b. roundDouble (a + b)) (roundDouble (a + x)) xs"
      using s False Cons.prems(3) by (intro Cons.IH) simp_all
    then show ?thesis by simp
  qed
qed

lemma reduce_add_pos: "xs \<noteq> [] \<Longrightarrow> \<forall>x \<in> set xs. 0 < x \<Longrightarrow> 0 < reduce_add xs"
  unfolding reduce_add_def by (rule reduce_add_pos_aux) simp_all

lemma smoothing_bounds:
  assumes "1 \<le> period"
  shows "0 < roundDouble (2 / roundDouble (of_nat period + 1))"
    and "roundDouble (2 / roundDouble (of_nat period + 1)) \<le> 1"
    and "0 \<le> roundDouble (1 - roundDouble (2 / roundDouble (of_nat period + 1)))"
proof -
  define P where "P = roundDouble (of_nat period + 1)"
  have "pow2 1 \<le> (of_nat period + 1 :: rat)" using assms by simp
  then have "pow2 1 \<le> P" unfolding P_def by (rule roundDouble_ge_pow2)
  then have P2: "2 \<le> P" by simp
  have q0: "0 < 2 / P" using P2 by simp
  have q1: "2 / P \<le> pow2 0" using P2 by simp
  show k0: "0 < roundDouble (2 / roundDouble (of_nat period + 1))"
    using q0 unfolding P_def by (rule roundDouble_pos)
  have "roundDouble (2 / P) \<le> pow2 0" using q0 q1 by (rule roundDouble_le_pow2)
  then show k1: "roundDouble (2 / roundDouble (of_nat period + 1)) \<le> 1"
    by (simp add: P_def)
  show "0 \<le> roundDouble (1 - roundDouble (2 / roundDouble (of_nat period + 1)))"
    using k1 by (intro roundDouble_nonneg) simp
qed

lemma emaLoop_pos:
  assumes "0 < k" "0 \<le> roundDouble (1 - k)"
  shows "0 < ema \<Longrightarrow> \<forall>c \<in> set cs. 0 < c \<Longrightarrow> 0 < emaLoop k ema cs"
proof (induction cs arbitrary: ema)
  case Nil
  then show ?case by simp
next
  case (Cons c cs)
  have "0 < c * k" using Cons.prems(2) assms(1) by simp
  then have a: "0 < roundDouble (c * k)" by (rule roundDouble_pos)
  have "0 \<le> ema * roundDouble (1 - k)" using Cons.prems(1) assms(2) by simp
  then have b: "0 \<le> roundDouble (ema * roundDouble (1 - k))" by (rule roundDouble_nonneg)
  have "0 < roundDouble (roundDouble (c * k) + roundDouble (ema * roundDouble (1 - k)))"
    using a b by (intro roundDouble_pos) linarith
  then show ?case using Cons.IH Cons.prems(2) by simp
qed

lemma calcEMA_pos:
  assumes pos: "\<forall>c \<in> set closes. 0 < c" and p: "1 \<le> period"
    and v: "calcEMA closes period = Some v"
  shows "0 < v"
proof -
  have len: "period \<le> length closes"
    using v by (auto simp: calcEMA_def split: if_splits)
  define k :: rat where "k = roundDouble (2 / roundDouble (of_nat period + 1))"
  have k0: "0 < k" and k1: "0 \<le> roundDouble (1 - k)"
    unfolding k_def using smoothing_bounds [OF p] by simp_all
  have ne: "take period closes \<noteq> []" using p len by auto
  have tp: "\<forall>x \<in> set (take period closes). 0 < x"
    using pos by (meson in_set_takeD)
  have "0 < reduce_add (take period closes) / of_nat period"
    using reduce_add_pos [OF ne tp] p by simp
  then have seed: "0 < roundDouble (reduce_add (take period closes) / of_nat period)"
    by (rule roundDouble_pos)
  have dp: "\<forall>x \<in> set (drop period closes). 0 < x"
    using pos by (meson in_set_dropD)
  have "v = emaLoop k (roundDouble (reduce_add (take period closes) / of_nat period))
              (drop period closes)"
    using v len by (simp add: calcEMA_def k_def Let_def)
  then show ?thesis using emaLoop_pos [OF k0 k1 seed dp] by simp
qed

lemma emaCrossRule_at_most_one: "length (emaCrossRule t history) \<le> 1"
  by (simp add: emaCrossRule_def split: option.splits)

lemma emaCrossRule_computable:
  assumes "calcEMA history (maShortPeriod t) = Some emaS"
    and "calcEMA history (maLongPeriod t) = Some emaL"
    and "calcEMA (butlast history) (maShortPeriod t) = Some prevEmaS"
    and "calcEMA (butlast history) (maLongPeriod t) = Some prevEmaL"
  shows "emaCrossRule t history =
     (if emaS \<noteq> 0 \<and> emaL \<noteq> 0 \<and> prevEmaS \<noteq> 0 \<and> prevEmaL \<noteq> 0
      then if prevEmaS \<le> prevEmaL \<and> emaS > emaL
           then [\<lparr>type = ''maCross'', severity = HIGH,
                  data = [(''crossType'', Str ''bullish''),
                          (''shortMA'', Str (toFixed 2 emaS)),
                          (''longMA'', Str (toFixed 2 emaL))]\<rparr>]
           else if prevEmaS \<ge> prevEmaL \<and> emaS < emaL
           then [\<lparr>type = ''maCross'', severity = HIGH,
                  data = [(''crossType'', Str ''bearish''),
                          (''shortMA'', Str (toFixed 2 emaS)),
                          (''longMA'', Str (toFixed 2 emaL))]\<rparr>]
           else []
      else [])"
  using assms by (simp add: emaCrossRule_def)


text \<open>
  Claim C5, as amended. One evaluation of the EMA crossover rule never yields more than
  one alert, so never a bullish and a bearish one together. For periods of at least 1
  and a history whose four EMA values (current and previous, short and long) are
  computable, the rule is skipped if one of the four is zero, which the guard treats
  like a missing value; if all four are non-zero, then the rule yields exactly one
  alert, the bullish one, when the previous short is at most the previous long and the
  current short is above the current long, exactly the bearish one in the mirrored
  case, and none otherwise. The comparisons are between the EMA values as the code
  computes them. For a history of positive prices all four values are positive, so the
  guard skips nothing.
\<close>

theorem ema_crossover:
  "length (emaCrossRule t history) \<le> 1
   \<and> (1 \<le> maShortPeriod t \<and> 1 \<le> maLongPeriod t
       \<and> calcEMA history (maShortPeriod t) = Some emaS
       \<and> calcEMA history (maLongPeriod t) = Some emaL
       \<and> calcEMA (butlast history) (maShortPeriod t) = Some prevEmaS
       \<and> calcEMA (butlast history) (maLongPeriod t) = Some prevEmaL
      \<longrightarrow> emaCrossRule t history =
            (if emaS \<noteq> 0 \<and> emaL \<noteq> 0 \<and> prevEmaS \<noteq> 0 \<and> prevEmaL \<noteq> 0
             then if prevEmaS \<le> prevEmaL \<and> emaS > emaL
                  then [\<lparr>type = ''maCross'', severity = HIGH,
                         data = [(''crossType'', Str ''bullish''),
                                 (''shortMA'', Str (toFixed 2 emaS)),
                                 (''longMA'', Str (toFixed 2 emaL))]\<rparr>]
                  else if prevEmaS \<ge> prevEmaL \<and> emaS < emaL
                  then [\<lparr>type = ''maCross'', severity = HIGH,
                         data = [(''crossType'', Str ''bearish''),
                                 (''shortMA'', Str (toFixed 2 emaS)),
                                 (''longMA'', Str (toFixed 2 emaL))]\<rparr>]
                  else []
             else [])
        \<and> ((\<forall>c \<in> set history. 0 < c)
             \<longrightarrow> 0 < emaS \<and> 0 < emaL \<and> 0 < prevEmaS \<and> 0 < prevEmaL))"
proof -
  have main: "emaCrossRule t history =
            (if emaS \<noteq> 0 \<and> emaL \<noteq> 0 \<and> prevEmaS \<noteq> 0 \<and> prevEmaL \<noteq> 0
             then if prevEmaS \<le> prevEmaL \<and> emaS > emaL
                  then [\<lparr>type = ''maCross'', severity = HIGH,
                         data = [(''crossType'', Str ''bullish''),
                                 (''shortMA'', Str (toFixed 2 emaS)),
                                 (''longMA'', Str (toFixed 2 emaL))]\<rparr>]
                  else if prevEmaS \<ge> prevEmaL \<and> emaS < emaL
                  then [\<lparr>type = ''maCross'', severity = HIGH,
                         data = [(''crossType'', Str ''bearish''),
                                 (''shortMA'', Str (toFixed 2 emaS)),
                                 (''longMA'', Str (toFixed 2 emaL))]\<rparr>]
                  else []
             else [])
        \<and> ((\<forall>c \<in> set history. 0 < c)
             \<longrightarrow> 0 < emaS \<and> 0 < emaL \<and> 0 < prevEmaS \<and> 0 < prevEmaL)"
    if ps: "1 \<le> maShortPeriod t" and pl: "1 \<le> maLongPeriod t"
      and s: "calcEMA history (maShortPeriod t) = Some emaS"
      and l: "calcEMA history (maLongPeriod t) = Some emaL"
      and s': "calcEMA (butlast history) (maShortPeriod t) = Some prevEmaS"
      and l': "calcEMA (butlast history) (maLongPeriod t) = Some prevEmaL"
  proof -
    have a: "emaCrossRule t history =
            (if emaS \<noteq> 0 \<and> emaL \<noteq> 0 \<and> prevEmaS \<noteq> 0 \<and> prevEmaL \<noteq> 0
             then if prevEmaS \<le> prevEmaL \<and> emaS > emaL
                  then [\<lparr>type = ''maCross'', severity = HIGH,
                         data = [(''crossType'', Str ''bullish''),
                                 (''shortMA'', Str (toFixed 2 emaS)),
                                 (''longMA'', Str (toFixed 2 emaL))]\<rparr>]
                  else if prevEmaS \<ge> prevEmaL \<and> emaS < emaL
                  then [\<lparr>type = ''maCross'', severity = HIGH,
                         data = [(''crossType'', Str ''bearish''),
                                 (''shortMA'', Str (toFixed 2 emaS)),
                                 (''longMA'', Str (toFixed 2 emaL))]\<rparr>]
                  else []
             else [])"
      by (rule emaCrossRule_computable [OF s l s' l'])
    have b: "0 < emaS \<and> 0 < emaL \<and> 0 < prevEmaS \<and> 0 < prevEmaL"
      if pos: "\<forall>c \<in> set history. 0 < c"
    proof -
      have pos': "\<forall>c \<in> set (butlast history). 0 < c"
        using pos by (meson in_set_butlastD)
      show ?thesis
        using calcEMA_pos [OF pos ps s] calcEMA_pos [OF pos pl l]
          calcEMA_pos [OF pos' ps s'] calcEMA_pos [OF pos' pl l']
        by simp
    qed
    show ?thesis using a b by blast
  qed
  show ?thesis using emaCrossRule_at_most_one main by blast
qed


lemma ex_emas:
  "calcEMA [1, 1, 2] (maShortPeriod exT) = Some 2"
  "calcEMA [1, 1, 2] (maLongPeriod exT) = Some (3752999689475413 / 2251799813685248)"
  "calcEMA (butlast [1, 1, 2]) (maShortPeriod exT) = Some 1"
  "calcEMA (butlast [1, 1, 2]) (maLongPeriod exT) = Some 1"
proof -
  have r1: "roundDouble (2) = 2"
  proof -
    have ex: "binaryExponent (2) = 1"
      by (simp add: binaryExponent_step)
    show ?thesis
      by (simp add: roundDouble_def roundEven_def pow2_def Let_def ex)
  qed
  have r2: "roundDouble (1) = 1"
  proof -
    have ex: "binaryExponent (1) = 0"
      by (simp add: binaryExponent_step)
    show ?thesis
      by (simp add: roundDouble_def roundEven_def pow2_def Let_def ex)
  qed
  have r3: "roundDouble (3) = 3"
  proof -
    have ex: "binaryExponent (3) = 1"
      by (simp add: binaryExponent_step)
    show ?thesis
      by (simp add: roundDouble_def roundEven_def pow2_def Let_def ex)
  qed
  have r4: "roundDouble (2 / 3) = 6004799503160661 / 9007199254740992"
  proof -
    have ex: "binaryExponent (2 / 3) = - 1"
      by (simp add: binaryExponent_step)
    show ?thesis
      by (simp add: roundDouble_def roundEven_def pow2_def Let_def ex)
  qed
  have r5: "roundDouble (3002399751580331 / 9007199254740992) = 3002399751580331 / 9007199254740992"
  proof -
    have ex: "binaryExponent (3002399751580331 / 9007199254740992) = - 2"
      by (simp add: binaryExponent_step)
    show ?thesis
      by (simp add: roundDouble_def roundEven_def pow2_def Let_def ex)
  qed
  have r6: "roundDouble (6004799503160661 / 4503599627370496) = 6004799503160661 / 4503599627370496"
  proof -
    have ex: "binaryExponent (6004799503160661 / 4503599627370496) = 0"
      by (simp add: binaryExponent_step)
    show ?thesis
      by (simp add: roundDouble_def roundEven_def pow2_def Let_def ex)
  qed
  have r7: "roundDouble (15011998757901653 / 9007199254740992) = 3752999689475413 / 2251799813685248"
  proof -
    have ex: "binaryExponent (15011998757901653 / 9007199254740992) = 0"
      by (simp add: binaryExponent_step)
    show ?thesis
      by (simp add: roundDouble_def roundEven_def pow2_def Let_def ex)
  qed
  show "calcEMA [1, 1, 2] (maShortPeriod exT) = Some 2"
    "calcEMA [1, 1, 2] (maLongPeriod exT) = Some (3752999689475413 / 2251799813685248)"
    "calcEMA (butlast [1, 1, 2]) (maShortPeriod exT) = Some 1"
    "calcEMA (butlast [1, 1, 2]) (maLongPeriod exT) = Some 1"
    by (simp_all add: exT_def calcEMA_def reduce_add_def Let_def r1 r2 r3 r4 r5 r6 r7)
qed

lemma toFixed_ex: "toFixed 2 2 = ''2.00''" "toFixed 2 (3752999689475413 / 2251799813685248) = ''1.67''"
  by code_simp+

theorem ema_crossover_witness:
  "1 \<le> maShortPeriod exT \<and> 1 \<le> maLongPeriod exT
   \<and> calcEMA [1, 1, 2] (maShortPeriod exT) = Some 2
   \<and> calcEMA [1, 1, 2] (maLongPeriod exT) = Some (3752999689475413 / 2251799813685248)
   \<and> calcEMA (butlast [1, 1, 2]) (maShortPeriod exT) = Some 1
   \<and> calcEMA (butlast [1, 1, 2]) (maLongPeriod exT) = Some 1
   \<and> list_all (\<lambda>c. 0 < c) [1, 1, 2 :: rat]
   \<and> emaCrossRule exT [1, 1, 2] = [exBullish]
   \<and> length (emaCrossRule exT [1, 1, 2]) \<le> 1
   \<and> (0 :: rat) < 3752999689475413 / 2251799813685248"
proof -
  have h1: "\<forall>c \<in> set [1, 1, 2 :: rat]. 0 < c" by simp
  have h2: "1 \<le> maShortPeriod exT" "1 \<le> maLongPeriod exT" by (simp_all add: exT_def)
  note inst = ema_crossover [of exT "[1, 1, 2]" 2 "3752999689475413 / 2251799813685248" 1 1]
  have "emaCrossRule exT [1, 1, 2] =
            (if (2::rat) \<noteq> 0 \<and> (3752999689475413 / 2251799813685248 :: rat) \<noteq> 0 \<and> (1::rat) \<noteq> 0 \<and> (1::rat) \<noteq> 0
             then if (1::rat) \<le> 1 \<and> (2::rat) > 3752999689475413 / 2251799813685248
                  then [\<lparr>type = ''maCross'', severity = HIGH,
                         data = [(''crossType'', Str ''bullish''),
                                 (''shortMA'', Str (toFixed 2 2)),
                                 (''longMA'', Str (toFixed 2 (3752999689475413 / 2251799813685248)))]\<rparr>]
                  else if (1::rat) \<ge> 1 \<and> (2::rat) < 3752999689475413 / 2251799813685248
                  then [\<lparr>type = ''maCross'', severity = HIGH,
                         data = [(''crossType'', Str ''bearish''),
                                 (''shortMA'', Str (toFixed 2 2)),
                                 (''longMA'', Str (toFixed 2 (3752999689475413 / 2251799813685248)))]\<rparr>]
                  else []
             else [])"
    using inst h2 ex_emas by blast
  then have 1: "emaCrossRule exT [1, 1, 2] = [exBullish]"
    by (simp add: toFixed_ex exBullish_def)
  have 2: "length (emaCrossRule exT [1, 1, 2]) \<le> 1" using inst by blast
  have 3: "(0 :: rat) < 3752999689475413 / 2251799813685248" using inst h1 h2 ex_emas by blast
  show ?thesis unfolding list_all_iff using h1 h2 ex_emas 1 2 3 by blast
qed


text \<open>
  The claim as stated fails when an EMA is zero: for the history 0, 0, 5 and the
  periods 1 and 2 all four EMA values are computable, the previous short (0) is at most
  the previous long (0) and the current short (5) is above the current long, yet no
  alert fires, because the guard \<^verbatim>\<open>emaS && emaL && prevEmaS && prevEmaL\<close> takes the two
  zeros for missing values.
\<close>

theorem ema_crossover_zero_counterexample:
  "calcEMA [0, 0, 5] (maShortPeriod exT) = Some 5
   \<and> calcEMA [0, 0, 5] (maLongPeriod exT) = Some (3752999689475413 / 1125899906842624)
   \<and> calcEMA (butlast [0, 0, 5]) (maShortPeriod exT) = Some 0
   \<and> calcEMA (butlast [0, 0, 5]) (maLongPeriod exT) = Some 0
   \<and> (0 :: rat) \<le> 0 \<and> (5 :: rat) > 3752999689475413 / 1125899906842624
   \<and> emaCrossRule exT [0, 0, 5] = []"
proof -
  have r1: "roundDouble (2) = 2"
  proof -
    have ex: "binaryExponent (2) = 1"
      by (simp add: binaryExponent_step)
    show ?thesis
      by (simp add: roundDouble_def roundEven_def pow2_def Let_def ex)
  qed
  have r2: "roundDouble (1) = 1"
  proof -
    have ex: "binaryExponent (1) = 0"
      by (simp add: binaryExponent_step)
    show ?thesis
      by (simp add: roundDouble_def roundEven_def pow2_def Let_def ex)
  qed
  have r3: "roundDouble (5) = 5"
  proof -
    have ex: "binaryExponent (5) = 2"
      by (simp add: binaryExponent_step)
    show ?thesis
      by (simp add: roundDouble_def roundEven_def pow2_def Let_def ex)
  qed
  have r4: "roundDouble (3) = 3"
  proof -
    have ex: "binaryExponent (3) = 1"
      by (simp add: binaryExponent_step)
    show ?thesis
      by (simp add: roundDouble_def roundEven_def pow2_def Let_def ex)
  qed
  have r5: "roundDouble (2 / 3) = 6004799503160661 / 9007199254740992"
  proof -
    have ex: "binaryExponent (2 / 3) = - 1"
      by (simp add: binaryExponent_step)
    show ?thesis
      by (simp add: roundDouble_def roundEven_def pow2_def Let_def ex)
  qed
  have r6: "roundDouble (3002399751580331 / 9007199254740992) = 3002399751580331 / 9007199254740992"
  proof -
    have ex: "binaryExponent (3002399751580331 / 9007199254740992) = - 2"
      by (simp add: binaryExponent_step)
    show ?thesis
      by (simp add: roundDouble_def roundEven_def pow2_def Let_def ex)
  qed
  have r7: "roundDouble (30023997515803305 / 9007199254740992) = 3752999689475413 / 1125899906842624"
  proof -
    have ex: "binaryExponent (30023997515803305 / 9007199254740992) = 1"
      by (simp add: binaryExponent_step)
    show ?thesis
      by (simp add: roundDouble_def roundEven_def pow2_def Let_def ex)
  qed
  have r8: "roundDouble (3752999689475413 / 1125899906842624) = 3752999689475413 / 1125899906842624"
  proof -
    have ex: "binaryExponent (3752999689475413 / 1125899906842624) = 1"
      by (simp add: binaryExponent_step)
    show ?thesis
      by (simp add: roundDouble_def roundEven_def pow2_def Let_def ex)
  qed
  have e: "calcEMA [0, 0, 5] (maShortPeriod exT) = Some 5"
    "calcEMA [0, 0, 5] (maLongPeriod exT) = Some (3752999689475413 / 1125899906842624)"
    "calcEMA (butlast [0, 0, 5]) (maShortPeriod exT) = Some 0"
    "calcEMA (butlast [0, 0, 5]) (maLongPeriod exT) = Some 0"
    by (simp_all add: exT_def calcEMA_def reduce_add_def Let_def r1 r2 r3 r4 r5 r6 r7 r8)
  have "emaCrossRule exT [0, 0, 5] = []"
    using e by (simp add: emaCrossRule_def)
  then show ?thesis using e by simp
qed


lemma ema9_flat:
  "calcEMA [7, 7, 7, 7, 7, 7, 7, 7, 7, 7, 7, 7, 7, 7, 7, 7, 7, 7, 7, 7, 7] 9 = Some (3940649673949185 / 562949953421312)"
proof -
  have r1: "roundDouble (10) = 10"
  proof -
    have ex: "binaryExponent (10) = 3"
      by (simp add: binaryExponent_step)
    show ?thesis
      by (simp add: roundDouble_def roundEven_def pow2_def Let_def ex)
  qed
  have r2: "roundDouble (1 / 5) = 3602879701896397 / 18014398509481984"
  proof -
    have ex: "binaryExponent (1 / 5) = - 3"
      by (simp add: binaryExponent_step)
    show ?thesis
      by (simp add: roundDouble_def roundEven_def pow2_def Let_def ex)
  qed
  have r3: "roundDouble (7) = 7"
  proof -
    have ex: "binaryExponent (7) = 2"
      by (simp add: binaryExponent_step)
    show ?thesis
      by (simp add: roundDouble_def roundEven_def pow2_def Let_def ex)
  qed
  have r4: "roundDouble (14) = 14"
  proof -
    have ex: "binaryExponent (14) = 3"
      by (simp add: binaryExponent_step)
    show ?thesis
      by (simp add: roundDouble_def roundEven_def pow2_def Let_def ex)
  qed
  have r5: "roundDouble (21) = 21"
  proof -
    have ex: "binaryExponent (21) = 4"
      by (simp add: binaryExponent_step)
    show ?thesis
      by (simp add: roundDouble_def roundEven_def pow2_def Let_def ex)
  qed
  have r6: "roundDouble (28) = 28"
  proof -
    have ex: "binaryExponent (28) = 4"
      by (simp add: binaryExponent_step)
    show ?thesis
      by (simp add: roundDouble_def roundEven_def pow2_def Let_def ex)
  qed
  have r7: "roundDouble (35) = 35"
  proof -
    have ex: "binaryExponent (35) = 5"
      by (simp add: binaryExponent_step)
    show ?thesis
      by (simp add: roundDouble_def roundEven_def pow2_def Let_def ex)
  qed
  have r8: "roundDouble (42) = 42"
  proof -
    have ex: "binaryExponent (42) = 5"
      by (simp add: binaryExponent_step)
    show ?thesis
      by (simp add: roundDouble_def roundEven_def pow2_def Let_def ex)
  qed
  have r9: "roundDouble (49) = 49"
  proof -
    have ex: "binaryExponent (49) = 5"
      by (simp add: binaryExponent_step)
    show ?thesis
      by (simp add: roundDouble_def roundEven_def pow2_def Let_def ex)
  qed
  have r10: "roundDouble (56) = 56"
  proof -
    have ex: "binaryExponent (56) = 5"
      by (simp add: binaryExponent_step)
    show ?thesis
      by (simp add: roundDouble_def roundEven_def pow2_def Let_def ex)
  qed
  have r11: "roundDouble (63) = 63"
  proof -
    have ex: "binaryExponent (63) = 5"
      by (simp add: binaryExponent_step)
    show ?thesis
      by (simp add: roundDouble_def roundEven_def pow2_def Let_def ex)
  qed
  have r12: "roundDouble (14411518807585587 / 18014398509481984) = 3602879701896397 / 4503599627370496"
  proof -
    have ex: "binaryExponent (14411518807585587 / 18014398509481984) = - 1"
      by (simp add: binaryExponent_step)
    show ?thesis
      by (simp add: roundDouble_def roundEven_def pow2_def Let_def ex)
  qed
  have r13: "roundDouble (25220157913274779 / 18014398509481984) = 6305039478318695 / 4503599627370496"
  proof -
    have ex: "binaryExponent (25220157913274779 / 18014398509481984) = 0"
      by (simp add: binaryExponent_step)
    show ?thesis
      by (simp add: roundDouble_def roundEven_def pow2_def Let_def ex)
  qed
  have r14: "roundDouble (25220157913274779 / 4503599627370496) = 6305039478318695 / 1125899906842624"
  proof -
    have ex: "binaryExponent (25220157913274779 / 4503599627370496) = 2"
      by (simp add: binaryExponent_step)
    show ?thesis
      by (simp add: roundDouble_def roundEven_def pow2_def Let_def ex)
  qed
  have r15: "roundDouble (31525197391593475 / 4503599627370496) = 7881299347898369 / 1125899906842624"
  proof -
    have ex: "binaryExponent (31525197391593475 / 4503599627370496) = 2"
      by (simp add: binaryExponent_step)
    show ?thesis
      by (simp add: roundDouble_def roundEven_def pow2_def Let_def ex)
  qed
  have r16: "roundDouble (28395373445112343772665723276493 / 5070602400912917605986812821504) = 788129934789837 / 140737488355328"
  proof -
    have ex: "binaryExponent (28395373445112343772665723276493 / 5070602400912917605986812821504) = 2"
      by (simp add: binaryExponent_step)
    show ?thesis
      by (simp add: roundDouble_def roundEven_def pow2_def Let_def ex)
  qed
  have r17: "roundDouble (31525197391593479 / 4503599627370496) = 3940649673949185 / 562949953421312"
  proof -
    have ex: "binaryExponent (31525197391593479 / 4503599627370496) = 2"
      by (simp add: binaryExponent_step)
    show ?thesis
      by (simp add: roundDouble_def roundEven_def pow2_def Let_def ex)
  qed
  have r18: "roundDouble (14197686722556173687772712586445 / 2535301200456458802993406410752) = 788129934789837 / 140737488355328"
  proof -
    have ex: "binaryExponent (14197686722556173687772712586445 / 2535301200456458802993406410752) = 2"
      by (simp add: binaryExponent_step)
    show ?thesis
      by (simp add: roundDouble_def roundEven_def pow2_def Let_def ex)
  qed
  show ?thesis
    by (simp add: calcEMA_def reduce_add_def Let_def r1 r2 r3 r4 r5 r6 r7 r8 r9 r10 r11 r12 r13 r14 r15 r16 r17 r18)
qed

lemma ema21_flat:
  "calcEMA [7, 7, 7, 7, 7, 7, 7, 7, 7, 7, 7, 7, 7, 7, 7, 7, 7, 7, 7, 7, 7] 21 = Some (7)"
proof -
  have r1: "roundDouble (22) = 22"
  proof -
    have ex: "binaryExponent (22) = 4"
      by (simp add: binaryExponent_step)
    show ?thesis
      by (simp add: roundDouble_def roundEven_def pow2_def Let_def ex)
  qed
  have r2: "roundDouble (1 / 11) = 3275345183542179 / 36028797018963968"
  proof -
    have ex: "binaryExponent (1 / 11) = - 4"
      by (simp add: binaryExponent_step)
    show ?thesis
      by (simp add: roundDouble_def roundEven_def pow2_def Let_def ex)
  qed
  have r3: "roundDouble (7) = 7"
  proof -
    have ex: "binaryExponent (7) = 2"
      by (simp add: binaryExponent_step)
    show ?thesis
      by (simp add: roundDouble_def roundEven_def pow2_def Let_def ex)
  qed
  have r4: "roundDouble (14) = 14"
  proof -
    have ex: "binaryExponent (14) = 3"
      by (simp add: binaryExponent_step)
    show ?thesis
      by (simp add: roundDouble_def roundEven_def pow2_def Let_def ex)
  qed
  have r5: "roundDouble (21) = 21"
  proof -
    have ex: "binaryExponent (21) = 4"
      by (simp add: binaryExponent_step)
    show ?thesis
      by (simp add: roundDouble_def roundEven_def pow2_def Let_def ex)
  qed
  have r6: "roundDouble (28) = 28"
  proof -
    have ex: "binaryExponent (28) = 4"
      by (simp add: binaryExponent_step)
    show ?thesis
      by (simp add: roundDouble_def roundEven_def pow2_def Let_def ex)
  qed
  have r7: "roundDouble (35) = 35"
  proof -
    have ex: "binaryExponent (35) = 5"
      by (simp add: binaryExponent_step)
    show ?thesis
      by (simp add: roundDouble_def roundEven_def pow2_def Let_def ex)
  qed
  have r8: "roundDouble (42) = 42"
  proof -
    have ex: "binaryExponent (42) = 5"
      by (simp add: binaryExponent_step)
    show ?thesis
      by (simp add: roundDouble_def roundEven_def pow2_def Let_def ex)
  qed
  have r9: "roundDouble (49) = 49"
  proof -
    have ex: "binaryExponent (49) = 5"
      by (simp add: binaryExponent_step)
    show ?thesis
      by (simp add: roundDouble_def roundEven_def pow2_def Let_def ex)
  qed
  have r10: "roundDouble (56) = 56"
  proof -
    have ex: "binaryExponent (56) = 5"
      by (simp add: binaryExponent_step)
    show ?thesis
      by (simp add: roundDouble_def roundEven_def pow2_def Let_def ex)
  qed
  have r11: "roundDouble (63) = 63"
  proof -
    have ex: "binaryExponent (63) = 5"
      by (simp add: binaryExponent_step)
    show ?thesis
      by (simp add: roundDouble_def roundEven_def pow2_def Let_def ex)
  qed
  have r12: "roundDouble (70) = 70"
  proof -
    have ex: "binaryExponent (70) = 6"
      by (simp add: binaryExponent_step)
    show ?thesis
      by (simp add: roundDouble_def roundEven_def pow2_def Let_def ex)
  qed
  have r13: "roundDouble (77) = 77"
  proof -
    have ex: "binaryExponent (77) = 6"
      by (simp add: binaryExponent_step)
    show ?thesis
      by (simp add: roundDouble_def roundEven_def pow2_def Let_def ex)
  qed
  have r14: "roundDouble (84) = 84"
  proof -
    have ex: "binaryExponent (84) = 6"
      by (simp add: binaryExponent_step)
    show ?thesis
      by (simp add: roundDouble_def roundEven_def pow2_def Let_def ex)
  qed
  have r15: "roundDouble (91) = 91"
  proof -
    have ex: "binaryExponent (91) = 6"
      by (simp add: binaryExponent_step)
    show ?thesis
      by (simp add: roundDouble_def roundEven_def pow2_def Let_def ex)
  qed
  have r16: "roundDouble (98) = 98"
  proof -
    have ex: "binaryExponent (98) = 6"
      by (simp add: binaryExponent_step)
    show ?thesis
      by (simp add: roundDouble_def roundEven_def pow2_def Let_def ex)
  qed
  have r17: "roundDouble (105) = 105"
  proof -
    have ex: "binaryExponent (105) = 6"
      by (simp add: binaryExponent_step)
    show ?thesis
      by (simp add: roundDouble_def roundEven_def pow2_def Let_def ex)
  qed
  have r18: "roundDouble (112) = 112"
  proof -
    have ex: "binaryExponent (112) = 6"
      by (simp add: binaryExponent_step)
    show ?thesis
      by (simp add: roundDouble_def roundEven_def pow2_def Let_def ex)
  qed
  have r19: "roundDouble (119) = 119"
  proof -
    have ex: "binaryExponent (119) = 6"
      by (simp add: binaryExponent_step)
    show ?thesis
      by (simp add: roundDouble_def roundEven_def pow2_def Let_def ex)
  qed
  have r20: "roundDouble (126) = 126"
  proof -
    have ex: "binaryExponent (126) = 6"
      by (simp add: binaryExponent_step)
    show ?thesis
      by (simp add: roundDouble_def roundEven_def pow2_def Let_def ex)
  qed
  have r21: "roundDouble (133) = 133"
  proof -
    have ex: "binaryExponent (133) = 7"
      by (simp add: binaryExponent_step)
    show ?thesis
      by (simp add: roundDouble_def roundEven_def pow2_def Let_def ex)
  qed
  have r22: "roundDouble (140) = 140"
  proof -
    have ex: "binaryExponent (140) = 7"
      by (simp add: binaryExponent_step)
    show ?thesis
      by (simp add: roundDouble_def roundEven_def pow2_def Let_def ex)
  qed
  have r23: "roundDouble (147) = 147"
  proof -
    have ex: "binaryExponent (147) = 7"
      by (simp add: binaryExponent_step)
    show ?thesis
      by (simp add: roundDouble_def roundEven_def pow2_def Let_def ex)
  qed
  show ?thesis
    by (simp add: calcEMA_def reduce_add_def Let_def r1 r2 r3 r4 r5 r6 r7 r8 r9 r10 r11 r12 r13 r14 r15 r16 r17 r18 r19 r20 r21 r22 r23)
qed

lemma ema9_rise:
  "calcEMA [7, 7, 7, 7, 7, 7, 7, 7, 7, 7, 7, 7, 7, 7, 7, 7, 7, 7, 7, 7, 7, 8] 9 = Some (4053239664633447 / 562949953421312)"
proof -
  have r1: "roundDouble (10) = 10"
  proof -
    have ex: "binaryExponent (10) = 3"
      by (simp add: binaryExponent_step)
    show ?thesis
      by (simp add: roundDouble_def roundEven_def pow2_def Let_def ex)
  qed
  have r2: "roundDouble (1 / 5) = 3602879701896397 / 18014398509481984"
  proof -
    have ex: "binaryExponent (1 / 5) = - 3"
      by (simp add: binaryExponent_step)
    show ?thesis
      by (simp add: roundDouble_def roundEven_def pow2_def Let_def ex)
  qed
  have r3: "roundDouble (7) = 7"
  proof -
    have ex: "binaryExponent (7) = 2"
      by (simp add: binaryExponent_step)
    show ?thesis
      by (simp add: roundDouble_def roundEven_def pow2_def Let_def ex)
  qed
  have r4: "roundDouble (14) = 14"
  proof -
    have ex: "binaryExponent (14) = 3"
      by (simp add: binaryExponent_step)
    show ?thesis
      by (simp add: roundDouble_def roundEven_def pow2_def Let_def ex)
  qed
  have r5: "roundDouble (21) = 21"
  proof -
    have ex: "binaryExponent (21) = 4"
      by (simp add: binaryExponent_step)
    show ?thesis
      by (simp add: roundDouble_def roundEven_def pow2_def Let_def ex)
  qed
  have r6: "roundDouble (28) = 28"
  proof -
    have ex: "binaryExponent (28) = 4"
      by (simp add: binaryExponent_step)
    show ?thesis
      by (simp add: roundDouble_def roundEven_def pow2_def Let_def ex)
  qed
  have r7: "roundDouble (35) = 35"
  proof -
    have ex: "binaryExponent (35) = 5"
      by (simp add: binaryExponent_step)
    show ?thesis
      by (simp add: roundDouble_def roundEven_def pow2_def Let_def ex)
  qed
  have r8: "roundDouble (42) = 42"
  proof -
    have ex: "binaryExponent (42) = 5"
      by (simp add: binaryExponent_step)
    show ?thesis
      by (simp add: roundDouble_def roundEven_def pow2_def Let_def ex)
  qed
  have r9: "roundDouble (49) = 49"
  proof -
    have ex: "binaryExponent (49) = 5"
      by (simp add: binaryExponent_step)
    show ?thesis
      by (simp add: roundDouble_def roundEven_def pow2_def Let_def ex)
  qed
  have r10: "roundDouble (56) = 56"
  proof -
    have ex: "binaryExponent (56) = 5"
      by (simp add: binaryExponent_step)
    show ?thesis
      by (simp add: roundDouble_def roundEven_def pow2_def Let_def ex)
  qed
  have r11: "roundDouble (63) = 63"
  proof -
    have ex: "binaryExponent (63) = 5"
      by (simp add: binaryExponent_step)
    show ?thesis
      by (simp add: roundDouble_def roundEven_def pow2_def Let_def ex)
  qed
  have r12: "roundDouble (14411518807585587 / 18014398509481984) = 3602879701896397 / 4503599627370496"
  proof -
    have ex: "binaryExponent (14411518807585587 / 18014398509481984) = - 1"
      by (simp add: binaryExponent_step)
    show ?thesis
      by (simp add: roundDouble_def roundEven_def pow2_def Let_def ex)
  qed
  have r13: "roundDouble (25220157913274779 / 18014398509481984) = 6305039478318695 / 4503599627370496"
  proof -
    have ex: "binaryExponent (25220157913274779 / 18014398509481984) = 0"
      by (simp add: binaryExponent_step)
    show ?thesis
      by (simp add: roundDouble_def roundEven_def pow2_def Let_def ex)
  qed
  have r14: "roundDouble (25220157913274779 / 4503599627370496) = 6305039478318695 / 1125899906842624"
  proof -
    have ex: "binaryExponent (25220157913274779 / 4503599627370496) = 2"
      by (simp add: binaryExponent_step)
    show ?thesis
      by (simp add: roundDouble_def roundEven_def pow2_def Let_def ex)
  qed
  have r15: "roundDouble (31525197391593475 / 4503599627370496) = 7881299347898369 / 1125899906842624"
  proof -
    have ex: "binaryExponent (31525197391593475 / 4503599627370496) = 2"
      by (simp add: binaryExponent_step)
    show ?thesis
      by (simp add: roundDouble_def roundEven_def pow2_def Let_def ex)
  qed
  have r16: "roundDouble (28395373445112343772665723276493 / 5070602400912917605986812821504) = 788129934789837 / 140737488355328"
  proof -
    have ex: "binaryExponent (28395373445112343772665723276493 / 5070602400912917605986812821504) = 2"
      by (simp add: binaryExponent_step)
    show ?thesis
      by (simp add: roundDouble_def roundEven_def pow2_def Let_def ex)
  qed
  have r17: "roundDouble (31525197391593479 / 4503599627370496) = 3940649673949185 / 562949953421312"
  proof -
    have ex: "binaryExponent (31525197391593479 / 4503599627370496) = 2"
      by (simp add: binaryExponent_step)
    show ?thesis
      by (simp add: roundDouble_def roundEven_def pow2_def Let_def ex)
  qed
  have r18: "roundDouble (14197686722556173687772712586445 / 2535301200456458802993406410752) = 788129934789837 / 140737488355328"
  proof -
    have ex: "binaryExponent (14197686722556173687772712586445 / 2535301200456458802993406410752) = 2"
      by (simp add: binaryExponent_step)
    show ?thesis
      by (simp add: roundDouble_def roundEven_def pow2_def Let_def ex)
  qed
  have r19: "roundDouble (3602879701896397 / 2251799813685248) = 3602879701896397 / 2251799813685248"
  proof -
    have ex: "binaryExponent (3602879701896397 / 2251799813685248) = 0"
      by (simp add: binaryExponent_step)
    show ?thesis
      by (simp add: roundDouble_def roundEven_def pow2_def Let_def ex)
  qed
  have r20: "roundDouble (16212958658533789 / 2251799813685248) = 4053239664633447 / 562949953421312"
  proof -
    have ex: "binaryExponent (16212958658533789 / 2251799813685248) = 2"
      by (simp add: binaryExponent_step)
    show ?thesis
      by (simp add: roundDouble_def roundEven_def pow2_def Let_def ex)
  qed
  show ?thesis
    by (simp add: calcEMA_def reduce_add_def Let_def r1 r2 r3 r4 r5 r6 r7 r8 r9 r10 r11 r12 r13 r14 r15 r16 r17 r18 r19 r20)
qed

lemma ema21_rise:
  "calcEMA [7, 7, 7, 7, 7, 7, 7, 7, 7, 7, 7, 7, 7, 7, 7, 7, 7, 7, 7, 7, 7, 8] 21 = Some (7983653884884061 / 1125899906842624)"
proof -
  have r1: "roundDouble (22) = 22"
  proof -
    have ex: "binaryExponent (22) = 4"
      by (simp add: binaryExponent_step)
    show ?thesis
      by (simp add: roundDouble_def roundEven_def pow2_def Let_def ex)
  qed
  have r2: "roundDouble (1 / 11) = 3275345183542179 / 36028797018963968"
  proof -
    have ex: "binaryExponent (1 / 11) = - 4"
      by (simp add: binaryExponent_step)
    show ?thesis
      by (simp add: roundDouble_def roundEven_def pow2_def Let_def ex)
  qed
  have r3: "roundDouble (7) = 7"
  proof -
    have ex: "binaryExponent (7) = 2"
      by (simp add: binaryExponent_step)
    show ?thesis
      by (simp add: roundDouble_def roundEven_def pow2_def Let_def ex)
  qed
  have r4: "roundDouble (14) = 14"
  proof -
    have ex: "binaryExponent (14) = 3"
      by (simp add: binaryExponent_step)
    show ?thesis
      by (simp add: roundDouble_def roundEven_def pow2_def Let_def ex)
  qed
  have r5: "roundDouble (21) = 21"
  proof -
    have ex: "binaryExponent (21) = 4"
      by (simp add: binaryExponent_step)
    show ?thesis
      by (simp add: roundDouble_def roundEven_def pow2_def Let_def ex)
  qed
  have r6: "roundDouble (28) = 28"
  proof -
    have ex: "binaryExponent (28) = 4"
      by (simp add: binaryExponent_step)
    show ?thesis
      by (simp add: roundDouble_def roundEven_def pow2_def Let_def ex)
  qed
  have r7: "roundDouble (35) = 35"
  proof -
    have ex: "binaryExponent (35) = 5"
      by (simp add: binaryExponent_step)
    show ?thesis
      by (simp add: roundDouble_def roundEven_def pow2_def Let_def ex)
  qed
  have r8: "roundDouble (42) = 42"
  proof -
    have ex: "binaryExponent (42) = 5"
      by (simp add: binaryExponent_step)
    show ?thesis
      by (simp add: roundDouble_def roundEven_def pow2_def Let_def ex)
  qed
  have r9: "roundDouble (49) = 49"
  proof -
    have ex: "binaryExponent (49) = 5"
      by (simp add: binaryExponent_step)
    show ?thesis
      by (simp add: roundDouble_def roundEven_def pow2_def Let_def ex)
  qed
  have r10: "roundDouble (56) = 56"
  proof -
    have ex: "binaryExponent (56) = 5"
      by (simp add: binaryExponent_step)
    show ?thesis
      by (simp add: roundDouble_def roundEven_def pow2_def Let_def ex)
  qed
  have r11: "roundDouble (63) = 63"
  proof -
    have ex: "binaryExponent (63) = 5"
      by (simp add: binaryExponent_step)
    show ?thesis
      by (simp add: roundDouble_def roundEven_def pow2_def Let_def ex)
  qed
  have r12: "roundDouble (70) = 70"
  proof -
    have ex: "binaryExponent (70) = 6"
      by (simp add: binaryExponent_step)
    show ?thesis
      by (simp add: roundDouble_def roundEven_def pow2_def Let_def ex)
  qed
  have r13: "roundDouble (77) = 77"
  proof -
    have ex: "binaryExponent (77) = 6"
      by (simp add: binaryExponent_step)
    show ?thesis
      by (simp add: roundDouble_def roundEven_def pow2_def Let_def ex)
  qed
  have r14: "roundDouble (84) = 84"
  proof -
    have ex: "binaryExponent (84) = 6"
      by (simp add: binaryExponent_step)
    show ?thesis
      by (simp add: roundDouble_def roundEven_def pow2_def Let_def ex)
  qed
  have r15: "roundDouble (91) = 91"
  proof -
    have ex: "binaryExponent (91) = 6"
      by (simp add: binaryExponent_step)
    show ?thesis
      by (simp add: roundDouble_def roundEven_def pow2_def Let_def ex)
  qed
  have r16: "roundDouble (98) = 98"
  proof -
    have ex: "binaryExponent (98) = 6"
      by (simp add: binaryExponent_step)
    show ?thesis
      by (simp add: roundDouble_def roundEven_def pow2_def Let_def ex)
  qed
  have r17: "roundDouble (105) = 105"
  proof -
    have ex: "binaryExponent (105) = 6"
      by (simp add: binaryExponent_step)
    show ?thesis
      by (simp add: roundDouble_def roundEven_def pow2_def Let_def ex)
  qed
  have r18: "roundDouble (112) = 112"
  proof -
    have ex: "binaryExponent (112) = 6"
      by (simp add: binaryExponent_step)
    show ?thesis
      by (simp add: roundDouble_def roundEven_def pow2_def Let_def ex)
  qed
  have r19: "roundDouble (119) = 119"
  proof -
    have ex: "binaryExponent (119) = 6"
      by (simp add: binaryExponent_step)
    show ?thesis
      by (simp add: roundDouble_def roundEven_def pow2_def Let_def ex)
  qed
  have r20: "roundDouble (126) = 126"
  proof -
    have ex: "binaryExponent (126) = 6"
      by (simp add: binaryExponent_step)
    show ?thesis
      by (simp add: roundDouble_def roundEven_def pow2_def Let_def ex)
  qed
  have r21: "roundDouble (133) = 133"
  proof -
    have ex: "binaryExponent (133) = 7"
      by (simp add: binaryExponent_step)
    show ?thesis
      by (simp add: roundDouble_def roundEven_def pow2_def Let_def ex)
  qed
  have r22: "roundDouble (140) = 140"
  proof -
    have ex: "binaryExponent (140) = 7"
      by (simp add: binaryExponent_step)
    show ?thesis
      by (simp add: roundDouble_def roundEven_def pow2_def Let_def ex)
  qed
  have r23: "roundDouble (147) = 147"
  proof -
    have ex: "binaryExponent (147) = 7"
      by (simp add: binaryExponent_step)
    show ?thesis
      by (simp add: roundDouble_def roundEven_def pow2_def Let_def ex)
  qed
  have r24: "roundDouble (32753451835421789 / 36028797018963968) = 8188362958855447 / 9007199254740992"
  proof -
    have ex: "binaryExponent (32753451835421789 / 36028797018963968) = - 1"
      by (simp add: binaryExponent_step)
    show ?thesis
      by (simp add: roundDouble_def roundEven_def pow2_def Let_def ex)
  qed
  have r25: "roundDouble (3275345183542179 / 4503599627370496) = 3275345183542179 / 4503599627370496"
  proof -
    have ex: "binaryExponent (3275345183542179 / 4503599627370496) = - 1"
      by (simp add: binaryExponent_step)
    show ?thesis
      by (simp add: roundDouble_def roundEven_def pow2_def Let_def ex)
  qed
  have r26: "roundDouble (57318540711988129 / 9007199254740992) = 1791204397249629 / 281474976710656"
  proof -
    have ex: "binaryExponent (57318540711988129 / 9007199254740992) = 2"
      by (simp add: binaryExponent_step)
    show ?thesis
      by (simp add: roundDouble_def roundEven_def pow2_def Let_def ex)
  qed
  have r27: "roundDouble (31934615539536243 / 4503599627370496) = 7983653884884061 / 1125899906842624"
  proof -
    have ex: "binaryExponent (31934615539536243 / 4503599627370496) = 2"
      by (simp add: binaryExponent_step)
    show ?thesis
      by (simp add: roundDouble_def roundEven_def pow2_def Let_def ex)
  qed
  show ?thesis
    by (simp add: calcEMA_def reduce_add_def Let_def r1 r2 r3 r4 r5 r6 r7 r8 r9 r10 r11 r12 r13 r14 r15 r16 r17 r18 r19 r20 r21 r22 r23 r24 r25 r26 r27)
qed

text \<open>
  The comparisons are between computed values: after twenty-one closes of 7 the EMA of
  period 9 is 7.000000000000002 in the arithmetic of the code and the EMA of period 21
  is 7, so the short average is already above the long one and a rise to 8 is no
  crossover.
\<close>

lemma emaCross_silent_after_flat_run:
  "emaCrossRule (t\<lparr>maShortPeriod := 9, maLongPeriod := 21\<rparr>)
     [7, 7, 7, 7, 7, 7, 7, 7, 7, 7, 7, 7, 7, 7, 7, 7, 7, 7, 7, 7, 7, 8] = []"
proof -
  have b: "butlast [7, 7, 7, 7, 7, 7, 7, 7, 7, 7, 7, 7, 7, 7, 7, 7, 7, 7, 7, 7, 7, 8]
             = [7, 7, 7, 7, 7, 7, 7, 7, 7, 7, 7, 7, 7, 7, 7, 7, 7, 7, 7, 7, 7]"
    by simp
  show ?thesis
    unfolding emaCrossRule_def b by (simp add: ema9_flat ema21_flat ema9_rise ema21_rise)
qed


lemma roundDouble_abs_le: "\<bar>roundDouble x\<bar> \<le> \<bar>x\<bar> + \<bar>x\<bar> / 2 ^ 53"
  using roundDouble_error [of x] by linarith

lemma roundDouble_lower: "0 \<le> x \<Longrightarrow> x - x / 2 ^ 53 \<le> roundDouble x"
  using roundDouble_error [of x] by linarith

lemma roundDouble_upper: "0 \<le> x \<Longrightarrow> roundDouble x \<le> x + x / 2 ^ 53"
  using roundDouble_error [of x] by linarith

lemma roundDouble_of_int:
  assumes "0 < n" "n < 2 ^ 53"
  shows "roundDouble (of_int n) = of_int n"
proof -
  define x :: rat where "x = of_int n"
  have x0: "0 < x" using assms(1) by (simp add: x_def)
  define e where "e = binaryExponent x"
  have "x < pow2 53" using assms(2) by (simp add: x_def pow2_def)
  then have "pow2 e < pow2 53"
    using binaryExponent_bounds(1) [OF x0] unfolding e_def by linarith
  then have e52: "e \<le> 52" by simp
  define m where "m = nat (52 - e)"
  have u: "pow2 (e - 52) = 1 / 2 ^ m"
    using e52 by (cases "e = 52") (simp_all add: pow2_def m_def)
  have "x / pow2 (e - 52) = of_int (n * 2 ^ m)"
    by (simp add: u x_def)
  then have "roundEven (x / pow2 (e - 52)) = n * 2 ^ m"
    by (simp only: roundEven_of_int)
  then have "roundDouble x = of_int (n * 2 ^ m) * pow2 (e - 52)"
    using roundDouble_pos_eq [OF x0] by (simp add: e_def)
  also have "\<dots> = x" by (simp add: u x_def)
  finally show ?thesis by (simp add: x_def)
qed

lemma roundDouble_of_nat:
  assumes "n < 2 ^ 53"
  shows "roundDouble (of_nat n) = of_nat n"
proof (cases "n = 0")
  case True
  then show ?thesis by simp
next
  case False
  have "int n < 2 ^ 53" using assms by (simp add: of_nat_less_numeral_power_cancel_iff)
  then have "roundDouble (of_int (int n)) = of_int (int n)"
    using False by (intro roundDouble_of_int) simp_all
  then show ?thesis by simp
qed

lemma foldl_constant_error:
  assumes "j \<le> 2 ^ 32"
  shows "\<bar>foldl (\<lambda>a b. roundDouble (a + b)) 0 (replicate j c) - of_nat j * c\<bar>
           \<le> of_nat j * (of_nat j + 1) * (\<bar>c\<bar> / 2 ^ 53)"
  using assms
proof (induction j)
  case 0
  show ?case by simp
next
  case (Suc j)
  define s where "s = foldl (\<lambda>a b. roundDouble (a + b)) 0 (replicate j c)"
  define X :: rat where "X = of_nat j"
  define C where "C = \<bar>c\<bar>"
  define E where "E = \<bar>s - X * c\<bar>"
  have X0: "0 \<le> X" by (simp add: X_def)
  have C0: "0 \<le> C" by (simp add: C_def)
  have "j \<le> 2 ^ 32" using Suc.prems by simp
  then have "X \<le> of_nat (2 ^ 32)" unfolding X_def by (simp only: of_nat_le_iff)
  then have Xle: "X \<le> 2 ^ 32" by simp
  have ih: "E \<le> X * (X + 1) * (C / 2 ^ 53)"
    using Suc.IH \<open>j \<le> 2 ^ 32\<close> by (simp add: E_def s_def X_def C_def)
  have step: "foldl (\<lambda>a b. roundDouble (a + b)) 0 (replicate (Suc j) c) = roundDouble (s + c)"
    by (simp add: replicate_append_same [symmetric] s_def)
  have yb: "\<bar>s + c\<bar> \<le> (X + 1) * C + E"
  proof -
    have "s + c = (s - X * c) + (X + 1) * c" by (simp add: algebra_simps)
    then have "\<bar>s + c\<bar> \<le> \<bar>s - X * c\<bar> + \<bar>(X + 1) * c\<bar>"
      by (simp only: abs_triangle_ineq)
    also have "\<bar>(X + 1) * c\<bar> = (X + 1) * C"
      using X0 by (simp add: abs_mult C_def)
    finally show ?thesis by (simp add: E_def)
  qed
  have Esmall: "E \<le> (X + 1) * C"
  proof -
    have small: "X / 2 ^ 53 \<le> 1" using Xle X0 by simp
    have "E \<le> X * (X + 1) * (C / 2 ^ 53)" by (rule ih)
    also have "\<dots> = ((X + 1) * C) * (X / 2 ^ 53)" by simp
    also have "\<dots> \<le> ((X + 1) * C) * 1"
      using small X0 C0 by (intro mult_left_mono) simp_all
    finally show ?thesis by simp
  qed
  have "\<bar>roundDouble (s + c) - (s + c)\<bar> \<le> \<bar>s + c\<bar> / 2 ^ 53"
    by (rule roundDouble_error)
  also have "\<dots> \<le> (2 * ((X + 1) * C)) / 2 ^ 53"
  proof (rule divide_right_mono)
    show "\<bar>s + c\<bar> \<le> 2 * ((X + 1) * C)" using yb Esmall by linarith
    show "(0::rat) \<le> 2 ^ 53" by simp
  qed
  finally have re: "\<bar>roundDouble (s + c) - (s + c)\<bar> \<le> (2 * ((X + 1) * C)) / 2 ^ 53" .
  have "roundDouble (s + c) - (X + 1) * c = (roundDouble (s + c) - (s + c)) + (s - X * c)"
    by (simp add: algebra_simps)
  then have "\<bar>roundDouble (s + c) - (X + 1) * c\<bar>
               \<le> \<bar>roundDouble (s + c) - (s + c)\<bar> + \<bar>s - X * c\<bar>"
    by (simp only: abs_triangle_ineq)
  also have "\<dots> \<le> (2 * ((X + 1) * C)) / 2 ^ 53 + X * (X + 1) * (C / 2 ^ 53)"
    using re ih unfolding E_def by (rule add_mono)
  also have "\<dots> = (X + 1) * (X + 1 + 1) * (C / 2 ^ 53)"
    by (simp add: field_simps)
  finally have fin: "\<bar>roundDouble (s + c) - (X + 1) * c\<bar>
                       \<le> (X + 1) * (X + 1 + 1) * (C / 2 ^ 53)" .
  have cast: "(of_nat (Suc j) :: rat) = X + 1" by (simp add: X_def)
  show ?case unfolding step cast using fin by (simp only: C_def)
qed


lemma mean_constant_error:
  assumes "1 \<le> p" "p \<le> 2 ^ 32"
  shows "\<bar>roundDouble (reduce_add (replicate p c) / of_nat p) - c\<bar>
           \<le> (of_nat p + 3) * (\<bar>c\<bar> / 2 ^ 53)"
proof -
  define s where "s = reduce_add (replicate p c)"
  define X :: rat where "X = of_nat p"
  define U where "U = \<bar>c\<bar> / 2 ^ 53"
  define m where "m = s / X"
  have X1: "1 \<le> X" using assms(1) by (simp add: X_def)
  have "X \<le> of_nat (2 ^ 32)" unfolding X_def using assms(2) by (simp only: of_nat_le_iff)
  then have Xle: "X \<le> 2 ^ 32" by simp
  have U0: "0 \<le> U" by (simp add: U_def)
  have cU: "\<bar>c\<bar> = 2 ^ 53 * U" by (simp add: U_def)
  have E: "\<bar>s - X * c\<bar> \<le> X * (X + 1) * U"
    unfolding s_def X_def U_def reduce_add_def using assms(2) by (rule foldl_constant_error)
  have "m - c = (s - X * c) / X" using X1 by (simp add: m_def field_simps)
  then have "\<bar>m - c\<bar> = \<bar>s - X * c\<bar> / X" using X1 by (simp add: abs_divide)
  also have "\<dots> \<le> (X * (X + 1) * U) / X"
    using E X1 by (intro divide_right_mono) simp_all
  also have "\<dots> = (X + 1) * U" using X1 by simp
  finally have mc: "\<bar>m - c\<bar> \<le> (X + 1) * U" .
  have mabs: "\<bar>m\<bar> \<le> 2 ^ 53 * U + (X + 1) * U"
    using mc cU by linarith
  have "\<bar>roundDouble m - m\<bar> \<le> \<bar>m\<bar> / 2 ^ 53" by (rule roundDouble_error)
  also have "\<dots> \<le> (2 ^ 53 * U + (X + 1) * U) / 2 ^ 53"
    using mabs by (intro divide_right_mono) simp_all
  also have "\<dots> = U + ((X + 1) / 2 ^ 53) * U" by (simp add: field_simps)
  also have "\<dots> \<le> U + 1 * U"
  proof -
    have "(X + 1) / 2 ^ 53 \<le> 1" using Xle by simp
    then have "((X + 1) / 2 ^ 53) * U \<le> 1 * U" using U0 by (rule mult_right_mono)
    then show ?thesis by simp
  qed
  finally have rm: "\<bar>roundDouble m - m\<bar> \<le> 2 * U" by simp
  have "\<bar>roundDouble m - c\<bar> \<le> \<bar>roundDouble m - m\<bar> + \<bar>m - c\<bar>" by simp
  also have "\<dots> \<le> 2 * U + (X + 1) * U" using rm mc by (rule add_mono)
  also have "\<dots> = (X + 3) * U" by (simp add: algebra_simps)
  finally show ?thesis by (simp only: m_def s_def X_def U_def)
qed

lemma small_cube:
  fixes u :: rat
  assumes "0 \<le> u" "u \<le> 1 / 4"
  shows "(1 + u) ^ 3 \<le> 1 + 4 * u" and "1 \<le> (1 + u) ^ 3 * (1 - u)"
proof -
  have a: "u * u \<le> u / 4"
    using mult_left_mono [OF assms(2) assms(1)] by simp
  have "(u * u) * u \<le> (u / 4) * u"
    using a assms(1) by (rule mult_right_mono)
  then have b: "u * u * u \<le> u / 16" using a by simp
  have "(u * u * u) * u \<le> (u / 16) * u"
    using b assms(1) by (rule mult_right_mono)
  then have c: "u * u * u * u \<le> u / 64" using a by simp
  have b0: "0 \<le> u * u * u" and c0: "0 \<le> u * u * u * u" and a0: "0 \<le> u * u"
    using assms(1) by simp_all
  have e1: "(1 + u) ^ 3 = 1 + 3 * u + 3 * (u * u) + u * u * u"
    by (simp add: power3_eq_cube algebra_simps)
  show "(1 + u) ^ 3 \<le> 1 + 4 * u"
    unfolding e1 using a b assms(1) by linarith
  have e2: "(1 + u) ^ 3 * (1 - u) = 1 + 2 * u - 2 * (u * u * u) - u * u * u * u"
    by (simp add: power3_eq_cube algebra_simps)
  show "1 \<le> (1 + u) ^ 3 * (1 - u)"
    unfolding e2 using b c assms(1) by linarith
qed

lemma smoothing_constants:
  assumes "1 \<le> p" "p \<le> 2 ^ 32"
  shows "roundDouble (1 - roundDouble (2 / roundDouble (of_nat p + 1))) \<le> 1"
    and "(1 + 1 / 2 ^ 53) * ((1 + 1 / 2 ^ 53)
           * roundDouble (1 - roundDouble (2 / roundDouble (of_nat p + 1))))
         \<le> 1 - 2 / (of_nat p + 1) + 4 / 2 ^ 53"
proof -
  define u :: rat where "u = 1 / 2 ^ 53"
  define q :: rat where "q = of_nat p + 1"
  define x where "x = 2 / q"
  define k where "k = roundDouble x"
  define k1 where "k1 = roundDouble (1 - k)"
  have u0: "0 < u" by (simp add: u_def)
  have div: "y / 2 ^ 53 = u * y" for y :: rat by (simp add: u_def)
  have "Suc p < 2 ^ 53" using assms(2) by simp
  then have "roundDouble (of_nat (Suc p)) = of_nat (Suc p)" by (rule roundDouble_of_nat)
  then have rq: "roundDouble (of_nat p + 1) = q" by (simp add: q_def add.commute)
  have q2: "2 \<le> q" using assms(1) by (simp add: q_def)
  have x0: "0 < x" and x1: "x \<le> 1" using q2 by (simp_all add: x_def)
  have kk: "k = roundDouble (2 / roundDouble (of_nat p + 1))"
    by (simp add: k_def x_def rq)
  have k1le: "k \<le> 1" unfolding kk using smoothing_bounds(2) [OF assms(1)] .
  have klo: "x - u * x \<le> k"
    unfolding k_def div [symmetric] using x0 by (intro roundDouble_lower) simp
  have d0: "0 \<le> 1 - k" using k1le by simp
  have k1hi: "k1 \<le> (1 - k) + u * (1 - k)"
    unfolding k1_def div [symmetric] using d0 by (rule roundDouble_upper)
  have ux: "u * x \<le> x"
  proof -
    have "u * x \<le> 1 * x" using x0 by (intro mult_right_mono) (simp_all add: u_def)
    then show ?thesis by simp
  qed
  have k1le1: "k1 \<le> 1"
  proof (cases "k = 1")
    case True
    then show ?thesis by (simp add: k1_def)
  next
    case False
    then have "0 < 1 - k" using k1le by simp
    moreover have "1 - k \<le> pow2 0" using klo ux by simp
    ultimately have "roundDouble (1 - k) \<le> pow2 0" by (rule roundDouble_le_pow2)
    then show ?thesis by (simp add: k1_def)
  qed
  show "roundDouble (1 - roundDouble (2 / roundDouble (of_nat p + 1))) \<le> 1"
    using k1le1 by (simp only: k1_def kk)
  have k1x: "k1 \<le> (1 + u) * (1 - (x - u * x))"
  proof -
    have "(1 - k) + u * (1 - k) = (1 + u) * (1 - k)" by (simp add: algebra_simps)
    also have "\<dots> \<le> (1 + u) * (1 - (x - u * x))"
      using klo u0 by (intro mult_left_mono) simp_all
    finally show ?thesis using k1hi by linarith
  qed
  have "(1 + u) * ((1 + u) * k1) \<le> (1 + u) * ((1 + u) * ((1 + u) * (1 - (x - u * x))))"
    using k1x u0 by (intro mult_left_mono) simp_all
  also have "\<dots> \<le> 1 - x + 4 * u"
  proof -
    have "(1 + u) * ((1 + u) * ((1 + u) * (1 - (x - u * x))))
            = (1 + u) ^ 3 - ((1 + u) ^ 3 * (1 - u)) * x"
      by (simp add: power3_eq_cube algebra_simps)
    moreover have "(1 + u) ^ 3 \<le> 1 + 4 * u"
      by (rule small_cube) (simp_all add: u_def)
    moreover have "1 * x \<le> ((1 + u) ^ 3 * (1 - u)) * x"
    proof (rule mult_right_mono)
      show "1 \<le> (1 + u) ^ 3 * (1 - u)" by (rule small_cube) (simp_all add: u_def)
      show "0 \<le> x" using x0 by simp
    qed
    ultimately show ?thesis by linarith
  qed
  finally have "(1 + u) * ((1 + u) * k1) \<le> 1 - x + 4 * u" .
  then show "(1 + 1 / 2 ^ 53) * ((1 + 1 / 2 ^ 53)
           * roundDouble (1 - roundDouble (2 / roundDouble (of_nat p + 1))))
         \<le> 1 - 2 / (of_nat p + 1) + 4 / 2 ^ 53"
    by (simp only: k1_def kk x_def q_def u_def mult_1_right times_divide_eq_right)
qed


lemma ema_step_error:
  fixes u :: rat
  assumes u: "u = 1 / 2 ^ 53" and k0: "0 < k" and k1: "k \<le> 1"
    and kp: "kp = roundDouble (1 - k)"
  shows "\<bar>roundDouble (roundDouble (c * k) + roundDouble (e * kp)) - c\<bar>
           \<le> (1 + u) * ((1 + u) * kp * \<bar>e - c\<bar> + u * (1 + kp) * \<bar>c\<bar>) + u * \<bar>c\<bar>"
proof -
  define A where "A = roundDouble (c * k)"
  define B where "B = roundDouble (e * kp)"
  define C where "C = \<bar>c\<bar>"
  define D where "D = \<bar>e - c\<bar>"
  have u0: "0 < u" by (simp add: u)
  have err: "\<bar>roundDouble y - y\<bar> \<le> u * \<bar>y\<bar>" for y
    using roundDouble_error [of y] by (simp add: u)
  have kp0: "0 \<le> kp" unfolding kp using k1 by (intro roundDouble_nonneg) simp
  have C0: "0 \<le> C" by (simp add: C_def)
  have D0: "0 \<le> D" by (simp add: D_def)
  have hA: "\<bar>A - c * k\<bar> \<le> u * (C * k)"
    using err [of "c * k"] k0 by (simp add: A_def C_def abs_mult)
  have he: "\<bar>e\<bar> \<le> C + D"
    unfolding C_def D_def by linarith
  have "\<bar>B - e * kp\<bar> \<le> u * (\<bar>e\<bar> * kp)"
    using err [of "e * kp"] kp0 by (simp add: B_def abs_mult)
  also have "\<dots> \<le> u * ((C + D) * kp)"
    using he kp0 u0 by (intro mult_left_mono mult_right_mono) simp_all
  finally have hB: "\<bar>B - e * kp\<bar> \<le> u * ((C + D) * kp)" .
  have "\<bar>kp - (1 - k)\<bar> \<le> u * \<bar>1 - k\<bar>"
    unfolding kp by (rule err)
  then have hk: "\<bar>kp - (1 - k)\<bar> \<le> u * (1 - k)" using k1 by simp
  have "\<bar>c * (kp - (1 - k))\<bar> = C * \<bar>kp - (1 - k)\<bar>"
    by (simp add: abs_mult C_def)
  also have "\<dots> \<le> C * (u * (1 - k))"
    using hk C0 by (rule mult_left_mono)
  finally have hc: "\<bar>c * (kp - (1 - k))\<bar> \<le> C * (u * (1 - k))" .
  have hd: "\<bar>(e - c) * kp\<bar> = D * kp"
    using kp0 by (simp add: abs_mult D_def)
  have split: "A + B - c = (A - c * k) + (B - e * kp) + (e - c) * kp + c * (kp - (1 - k))"
    by (simp add: algebra_simps)
  have "\<bar>A + B - c\<bar> \<le> \<bar>A - c * k\<bar> + \<bar>B - e * kp\<bar> + \<bar>(e - c) * kp\<bar> + \<bar>c * (kp - (1 - k))\<bar>"
    unfolding split by linarith
  also have "\<dots> \<le> u * (C * k) + u * ((C + D) * kp) + D * kp + C * (u * (1 - k))"
    using hA hB hc hd by linarith
  also have "\<dots> = (1 + u) * kp * D + u * (1 + kp) * C"
    by (simp add: algebra_simps)
  finally have hS: "\<bar>A + B - c\<bar> \<le> (1 + u) * kp * D + u * (1 + kp) * C" .
  have "\<bar>A + B\<bar> \<le> C + \<bar>A + B - c\<bar>"
    unfolding C_def by linarith
  then have "u * \<bar>A + B\<bar> \<le> u * (C + \<bar>A + B - c\<bar>)"
    using u0 by (intro mult_left_mono) simp_all
  then have "\<bar>roundDouble (A + B) - (A + B)\<bar> \<le> u * (C + \<bar>A + B - c\<bar>)"
    using err [of "A + B"] by linarith
  then have "\<bar>roundDouble (A + B) - c\<bar> \<le> u * (C + \<bar>A + B - c\<bar>) + \<bar>A + B - c\<bar>"
    by linarith
  also have "\<dots> = (1 + u) * \<bar>A + B - c\<bar> + u * C"
    by (simp add: algebra_simps)
  also have "\<dots> \<le> (1 + u) * ((1 + u) * kp * D + u * (1 + kp) * C) + u * C"
    using hS u0 by (intro add_right_mono mult_left_mono) simp_all
  finally show ?thesis by (simp only: A_def B_def C_def D_def)
qed

lemma emaLoop_constant_error:
  assumes p1: "1 \<le> p" and p2: "p \<le> 2 ^ 32"
    and k: "k = roundDouble (2 / roundDouble (of_nat p + 1))"
    and e: "\<bar>e - c\<bar> \<le> (of_nat p + 1) * (\<bar>c\<bar> / 2 ^ 52)"
  shows "\<bar>emaLoop k e (replicate m c) - c\<bar> \<le> (of_nat p + 1) * (\<bar>c\<bar> / 2 ^ 52)"
  using e
proof (induction m arbitrary: e)
  case 0
  then show ?case by simp
next
  case (Suc m)
  define u :: rat where "u = 1 / 2 ^ 53"
  define q :: rat where "q = of_nat p + 1"
  define kp where "kp = roundDouble (1 - k)"
  define C where "C = \<bar>c\<bar>"
  define D where "D = \<bar>e - c\<bar>"
  define e' where "e' = roundDouble (roundDouble (c * k) + roundDouble (e * kp))"
  have u0: "0 < u" by (simp add: u_def)
  have C0: "0 \<le> C" by (simp add: C_def)
  have D0: "0 \<le> D" by (simp add: D_def)
  have q2: "2 \<le> q" using p1 by (simp add: q_def)
  have "q \<le> of_nat (2 ^ 32) + 1" unfolding q_def using p2 by (simp only: add_right_mono of_nat_le_iff)
  then have qle: "q \<le> 2 ^ 32 + 1" by simp
  have k0: "0 < k" and k1: "k \<le> 1"
    unfolding k using smoothing_bounds [OF p1] by simp_all
  have kp0: "0 \<le> kp" unfolding kp_def using k1 by (intro roundDouble_nonneg) simp
  have kp1: "kp \<le> 1"
    unfolding kp_def k using smoothing_constants(1) [OF p1 p2] .
  have rho: "(1 + u) * ((1 + u) * kp) \<le> 1 - 2 / q + 4 * u"
    using smoothing_constants(2) [OF p1 p2] by (simp add: kp_def k u_def q_def)
  have bound: "(of_nat p + 1) * (\<bar>c\<bar> / 2 ^ 52) = 2 * q * u * C"
    by (simp add: q_def u_def C_def)
  have D: "D \<le> 2 * q * u * C"
    using Suc.prems by (simp only: bound D_def)
  have step: "\<bar>e' - c\<bar> \<le> (1 + u) * ((1 + u) * kp * D + u * (1 + kp) * C) + u * C"
    unfolding e'_def C_def D_def using u_def k0 k1 kp_def by (rule ema_step_error)
  have t1: "(1 + u) * ((1 + u) * kp) * D \<le> (1 - 2 / q + 4 * u) * (2 * q * u * C)"
  proof -
    have "(1 + u) * ((1 + u) * kp) * D \<le> (1 - 2 / q + 4 * u) * D"
      using rho D0 by (rule mult_right_mono)
    also have "\<dots> \<le> (1 - 2 / q + 4 * u) * (2 * q * u * C)"
    proof (rule mult_left_mono [OF D])
      have "2 / q \<le> 1" using q2 by simp
      then show "0 \<le> 1 - 2 / q + 4 * u" using u0 by simp
    qed
    finally show ?thesis .
  qed
  have t1': "(1 - 2 / q + 4 * u) * (2 * q * u * C) = (2 * q * u - 4 * u + 8 * q * (u * u)) * C"
    using q2 by (simp add: field_simps)
  have t2: "(1 + u) * (u * (1 + kp) * C) \<le> (2 * u + 2 * (u * u)) * C"
  proof -
    have "(1 + u) * (u * (1 + kp) * C) = ((1 + u) * u * C) * (1 + kp)"
      by (simp add: algebra_simps)
    also have "\<dots> \<le> ((1 + u) * u * C) * 2"
      using kp1 u0 C0 by (intro mult_left_mono) simp_all
    also have "\<dots> = (2 * u + 2 * (u * u)) * C" by (simp add: algebra_simps)
    finally show ?thesis .
  qed
  have small: "8 * q * (u * u) + 2 * (u * u) \<le> u"
  proof -
    have "(8 * q + 2) * u \<le> 1" using qle by (simp add: u_def)
    then have "((8 * q + 2) * u) * u \<le> 1 * u" using u0 by (intro mult_right_mono) simp_all
    then show ?thesis by (simp add: algebra_simps)
  qed
  have "\<bar>e' - c\<bar> \<le> (1 + u) * ((1 + u) * kp) * D + (1 + u) * (u * (1 + kp) * C) + u * C"
    using step by (simp add: algebra_simps)
  also have "\<dots> \<le> (2 * q * u - 4 * u + 8 * q * (u * u)) * C + (2 * u + 2 * (u * u)) * C + u * C"
    using t1 t2 unfolding t1' by linarith
  also have "\<dots> = (2 * q * u) * C - (u - (8 * q * (u * u) + 2 * (u * u))) * C"
    by (simp add: algebra_simps)
  also have "\<dots> \<le> (2 * q * u) * C"
  proof -
    have "0 \<le> (u - (8 * q * (u * u) + 2 * (u * u))) * C"
      using small C0 by (intro mult_nonneg_nonneg) simp_all
    then show ?thesis by linarith
  qed
  finally have e'b: "\<bar>e' - c\<bar> \<le> (of_nat p + 1) * (\<bar>c\<bar> / 2 ^ 52)"
    by (simp only: bound)
  have "emaLoop k e (replicate (Suc m) c) = emaLoop k e' (replicate m c)"
    by (simp add: e'_def kp_def)
  then show ?case using Suc.IH [OF e'b] by simp
qed

lemma calcSMA_constant_error:
  assumes "1 \<le> p" "p \<le> n" "p \<le> 2 ^ 32"
  shows "\<exists>s. calcSMA (replicate n c) p = Some s \<and> \<bar>s - c\<bar> \<le> (of_nat p + 3) * (\<bar>c\<bar> / 2 ^ 53)"
proof -
  have sl: "slice_last p (replicate n c) = replicate p c"
    using assms(1,2) by (simp add: slice_last_def)
  have "calcSMA (replicate n c) p = Some (roundDouble (reduce_add (replicate p c) / of_nat p))"
    using assms(2) by (simp add: calcSMA_def sl)
  then show ?thesis using mean_constant_error [OF assms(1,3), of c] by simp
qed

lemma calcEMA_constant_error:
  assumes "1 \<le> p" "p \<le> n" "p \<le> 2 ^ 32"
  shows "\<exists>e. calcEMA (replicate n c) p = Some e \<and> \<bar>e - c\<bar> \<le> (of_nat p + 1) * (\<bar>c\<bar> / 2 ^ 52)"
proof -
  define k where "k = roundDouble (2 / roundDouble (of_nat p + 1))"
  define seed where "seed = roundDouble (reduce_add (replicate p c) / of_nat p)"
  have tk: "take p (replicate n c) = replicate p c"
    using assms(2) by (simp add: min_def)
  have dr: "drop p (replicate n c) = replicate (n - p) c" by simp
  have v: "calcEMA (replicate n c) p = Some (emaLoop k seed (replicate (n - p) c))"
    using assms(2) by (simp add: calcEMA_def Let_def tk k_def seed_def)
  have "\<bar>seed - c\<bar> \<le> (of_nat p + 3) * (\<bar>c\<bar> / 2 ^ 53)"
    unfolding seed_def using assms(1,3) by (rule mean_constant_error)
  also have "\<dots> \<le> (of_nat p + 1) * (\<bar>c\<bar> / 2 ^ 52)"
  proof -
    have "(of_nat p + 3 :: rat) \<le> 2 * (of_nat p + 1)" using assms(1) by simp
    then have "(of_nat p + 3) * (\<bar>c\<bar> / 2 ^ 53) \<le> (2 * (of_nat p + 1)) * (\<bar>c\<bar> / 2 ^ 53)"
      by (intro mult_right_mono) simp_all
    also have "\<dots> = (of_nat p + 1) * (\<bar>c\<bar> / 2 ^ 52)" by simp
    finally show ?thesis .
  qed
  finally have sb: "\<bar>seed - c\<bar> \<le> (of_nat p + 1) * (\<bar>c\<bar> / 2 ^ 52)" .
  have "\<bar>emaLoop k seed (replicate (n - p) c) - c\<bar> \<le> (of_nat p + 1) * (\<bar>c\<bar> / 2 ^ 52)"
    using assms(1,3) k_def sb by (rule emaLoop_constant_error)
  then show ?thesis using v by simp
qed




lemma foldl_constant_exact:
  assumes "\<forall>i \<in> {1..j}. roundDouble (of_nat i * c) = of_nat i * c"
  shows "foldl (\<lambda>a b. roundDouble (a + b)) 0 (replicate j c) = of_nat j * c"
  using assms
proof (induction j)
  case 0
  show ?case by simp
next
  case (Suc j)
  have ih: "foldl (\<lambda>a b. roundDouble (a + b)) 0 (replicate j c) = of_nat j * c"
    using Suc.prems by (intro Suc.IH) simp
  have "foldl (\<lambda>a b. roundDouble (a + b)) 0 (replicate (Suc j) c)
          = roundDouble (of_nat j * c + c)"
    by (simp add: replicate_append_same [symmetric] ih)
  also have "of_nat j * c + c = of_nat (Suc j) * c" by (simp add: algebra_simps)
  also have "roundDouble (of_nat (Suc j) * c) = of_nat (Suc j) * c"
    by (rule bspec [OF Suc.prems]) simp
  finally show ?case .
qed

lemma mean_constant_exact:
  assumes "1 \<le> p" "\<forall>i \<in> {1..p}. roundDouble (of_nat i * c) = of_nat i * c"
  shows "roundDouble (reduce_add (replicate p c) / of_nat p) = c"
proof -
  have "reduce_add (replicate p c) = of_nat p * c"
    unfolding reduce_add_def using assms(2) by (rule foldl_constant_exact)
  then have "reduce_add (replicate p c) / of_nat p = c" using assms(1) by simp
  moreover have "roundDouble c = c" using assms by (auto dest: bspec [of _ _ 1])
  ultimately show ?thesis by simp
qed


text \<open>
  Claim C4, as amended. For a constant sequence of \<open>n\<close> closes \<open>c\<close> and a period \<open>p\<close>
  with \<open>1 \<le> p \<le> n\<close> (and \<open>p \<le> 2^32\<close>), both averages are computable and close to \<open>c\<close>:
  the SMA differs from \<open>c\<close> by at most \<open>(p + 3) / 2^53\<close> times \<open>\<bar>c\<bar>\<close>, and the EMA, seeded
  with the mean of the first \<open>p\<close> closes and updated with \<open>k = 2 / (p + 1)\<close>, by at most
  \<open>(p + 1) / 2^52\<close> times \<open>\<bar>c\<bar>\<close>. The SMA is exactly \<open>c\<close> whenever the multiples
  \<open>c, 2c, \<dots>, pc\<close> are numbers of the arithmetic (they are rounded to themselves), and so
  is the EMA when moreover \<open>n = p\<close>, where its loop does not run.
\<close>

theorem constant_averages_within_rounding:
  "1 \<le> p \<and> p \<le> n \<and> p \<le> 2 ^ 32 \<longrightarrow>
     (\<exists>s e. calcSMA (replicate n c) p = Some s \<and> calcEMA (replicate n c) p = Some e
         \<and> \<bar>s - c\<bar> \<le> (of_nat p + 3) * (\<bar>c\<bar> / 2 ^ 53)
         \<and> \<bar>e - c\<bar> \<le> (of_nat p + 1) * (\<bar>c\<bar> / 2 ^ 52))
     \<and> ((\<forall>i \<in> {1..p}. roundDouble (of_nat i * c) = of_nat i * c)
          \<longrightarrow> calcSMA (replicate n c) p = Some c \<and> calcEMA (replicate p c) p = Some c)"
proof
  assume h: "1 \<le> p \<and> p \<le> n \<and> p \<le> 2 ^ 32"
  then have p1: "1 \<le> p" and pn: "p \<le> n" and p32: "p \<le> 2 ^ 32" by simp_all
  obtain s where s: "calcSMA (replicate n c) p = Some s"
      "\<bar>s - c\<bar> \<le> (of_nat p + 3) * (\<bar>c\<bar> / 2 ^ 53)"
    using calcSMA_constant_error [OF p1 pn p32, of c] by blast
  obtain e where e: "calcEMA (replicate n c) p = Some e"
      "\<bar>e - c\<bar> \<le> (of_nat p + 1) * (\<bar>c\<bar> / 2 ^ 52)"
    using calcEMA_constant_error [OF p1 pn p32, of c] by blast
  have exact: "calcSMA (replicate n c) p = Some c \<and> calcEMA (replicate p c) p = Some c"
    if m: "\<forall>i \<in> {1..p}. roundDouble (of_nat i * c) = of_nat i * c"
  proof -
    have mean: "roundDouble (reduce_add (replicate p c) / of_nat p) = c"
      using p1 m by (rule mean_constant_exact)
    have sl: "slice_last p (replicate n c) = replicate p c"
      using p1 pn by (simp add: slice_last_def)
    have 1: "calcSMA (replicate n c) p = Some c"
      using pn by (simp add: calcSMA_def sl mean)
    have 2: "calcEMA (replicate p c) p = Some c"
      by (simp add: calcEMA_def Let_def mean)
    show ?thesis using 1 2 by simp
  qed
  show "(\<exists>s e. calcSMA (replicate n c) p = Some s \<and> calcEMA (replicate n c) p = Some e
         \<and> \<bar>s - c\<bar> \<le> (of_nat p + 3) * (\<bar>c\<bar> / 2 ^ 53)
         \<and> \<bar>e - c\<bar> \<le> (of_nat p + 1) * (\<bar>c\<bar> / 2 ^ 52))
     \<and> ((\<forall>i \<in> {1..p}. roundDouble (of_nat i * c) = of_nat i * c)
          \<longrightarrow> calcSMA (replicate n c) p = Some c \<and> calcEMA (replicate p c) p = Some c)"
    using s e exact by blast
qed

theorem constant_averages_within_rounding_witness:
  "(1::nat) \<le> 2 \<and> (2::nat) \<le> 3 \<and> (2::nat) \<le> 2 ^ 32
   \<and> list_all (\<lambda>i. roundDouble (of_nat i * 7) = of_nat i * 7) [1, 2]
   \<and> calcSMA (replicate 3 7) 2 = Some 7
   \<and> calcEMA (replicate 2 7) 2 = Some 7
   \<and> (\<exists>e. calcEMA (replicate 3 7) 2 = Some e \<and> \<bar>e - 7\<bar> \<le> (of_nat 2 + 1) * (\<bar>7\<bar> / 2 ^ 52))"
proof -
  have h: "(1::nat) \<le> 2 \<and> (2::nat) \<le> 3 \<and> (2::nat) \<le> 2 ^ 32" by simp
  have r: "roundDouble (of_nat i * 7) = of_nat i * 7" if "i \<le> 2" for i :: nat
  proof -
    have "i * 7 < 2 ^ 53" using that by simp
    then have "roundDouble (of_nat (i * 7)) = of_nat (i * 7)" by (rule roundDouble_of_nat)
    then show ?thesis by simp
  qed
  have m: "\<forall>i \<in> {1..2::nat}. roundDouble (of_nat i * 7) = of_nat i * 7"
    using r by simp
  have la: "list_all (\<lambda>i. roundDouble (of_nat i * 7) = of_nat i * 7) [1, 2 :: nat]"
    using r [of 1] r [of 2] by simp
  show ?thesis
    using h m la constant_averages_within_rounding [of 2 3 7] by blast
qed

text \<open>The double nearest to 0.1 is a number of the arithmetic.\<close>

lemma tenth_is_double: "roundDouble (1 / 10) = tenth" "roundDouble tenth = tenth"
proof -
  have ex: "binaryExponent (1 / 10) = - 4" by (simp add: binaryExponent_step)
  show "roundDouble (1 / 10) = tenth"
    by (simp add: roundDouble_def roundEven_def pow2_def Let_def ex tenth_def)
  have ex': "binaryExponent (3602879701896397 / 36028797018963968) = - 4"
    by (simp add: binaryExponent_step)
  show "roundDouble tenth = tenth"
    by (simp add: roundDouble_def roundEven_def pow2_def Let_def ex' tenth_def)
qed

text \<open>
  The claim as stated, that both averages return exactly the constant, fails in the
  arithmetic of the code. Three closes of 0.1 (the double nearest to it) at period 3
  give 0.10000000000000002 for both averages, because the sum of the three is rounded.
  Ten closes of 7 at period 9 give the SMA 7 but the EMA 7.000000000000001, because
  the products with \<open>k\<close> and \<open>1 - k\<close> in the loop are rounded.
\<close>

theorem constant_average_counterexample:
  "calcSMA [tenth, tenth, tenth] 3 = Some (7205759403792795 / 72057594037927936)
   \<and> calcEMA [tenth, tenth, tenth] 3 = Some (7205759403792795 / 72057594037927936)
   \<and> 7205759403792795 / 72057594037927936 \<noteq> tenth
   \<and> calcSMA [7, 7, 7, 7, 7, 7, 7, 7, 7, 7] 9 = Some 7
   \<and> calcEMA [7, 7, 7, 7, 7, 7, 7, 7, 7, 7] 9 = Some (7881299347898369 / 1125899906842624)
   \<and> 7881299347898369 / 1125899906842624 \<noteq> (7 :: rat)"
proof -
  have a1: "roundDouble (3602879701896397 / 36028797018963968) = 3602879701896397 / 36028797018963968"
  proof -
    have ex: "binaryExponent (3602879701896397 / 36028797018963968) = - 4"
      by (simp add: binaryExponent_step)
    show ?thesis
      by (simp add: roundDouble_def roundEven_def pow2_def Let_def ex)
  qed
  have a2: "roundDouble (3602879701896397 / 18014398509481984) = 3602879701896397 / 18014398509481984"
  proof -
    have ex: "binaryExponent (3602879701896397 / 18014398509481984) = - 3"
      by (simp add: binaryExponent_step)
    show ?thesis
      by (simp add: roundDouble_def roundEven_def pow2_def Let_def ex)
  qed
  have a3: "roundDouble (10808639105689191 / 36028797018963968) = 1351079888211149 / 4503599627370496"
  proof -
    have ex: "binaryExponent (10808639105689191 / 36028797018963968) = - 2"
      by (simp add: binaryExponent_step)
    show ?thesis
      by (simp add: roundDouble_def roundEven_def pow2_def Let_def ex)
  qed
  have a4: "roundDouble (1351079888211149 / 13510798882111488) = 7205759403792795 / 72057594037927936"
  proof -
    have ex: "binaryExponent (1351079888211149 / 13510798882111488) = - 4"
      by (simp add: binaryExponent_step)
    show ?thesis
      by (simp add: roundDouble_def roundEven_def pow2_def Let_def ex)
  qed
  have a5: "roundDouble (4) = 4"
  proof -
    have ex: "binaryExponent (4) = 2"
      by (simp add: binaryExponent_step)
    show ?thesis
      by (simp add: roundDouble_def roundEven_def pow2_def Let_def ex)
  qed
  have a6: "roundDouble (1 / 2) = 1 / 2"
  proof -
    have ex: "binaryExponent (1 / 2) = - 1"
      by (simp add: binaryExponent_step)
    show ?thesis
      by (simp add: roundDouble_def roundEven_def pow2_def Let_def ex)
  qed
  have 1: "calcSMA [tenth, tenth, tenth] 3 = Some (7205759403792795 / 72057594037927936)"
    by (simp add: calcSMA_def reduce_add_def slice_last_def tenth_def a1 a2 a3 a4 a5 a6)
  have 2: "calcEMA [tenth, tenth, tenth] 3 = Some (7205759403792795 / 72057594037927936)"
    by (simp add: calcEMA_def reduce_add_def Let_def tenth_def a1 a2 a3 a4 a5 a6)
  have b1: "roundDouble (10) = 10"
  proof -
    have ex: "binaryExponent (10) = 3"
      by (simp add: binaryExponent_step)
    show ?thesis
      by (simp add: roundDouble_def roundEven_def pow2_def Let_def ex)
  qed
  have b2: "roundDouble (1 / 5) = 3602879701896397 / 18014398509481984"
  proof -
    have ex: "binaryExponent (1 / 5) = - 3"
      by (simp add: binaryExponent_step)
    show ?thesis
      by (simp add: roundDouble_def roundEven_def pow2_def Let_def ex)
  qed
  have b3: "roundDouble (7) = 7"
  proof -
    have ex: "binaryExponent (7) = 2"
      by (simp add: binaryExponent_step)
    show ?thesis
      by (simp add: roundDouble_def roundEven_def pow2_def Let_def ex)
  qed
  have b4: "roundDouble (14) = 14"
  proof -
    have ex: "binaryExponent (14) = 3"
      by (simp add: binaryExponent_step)
    show ?thesis
      by (simp add: roundDouble_def roundEven_def pow2_def Let_def ex)
  qed
  have b5: "roundDouble (21) = 21"
  proof -
    have ex: "binaryExponent (21) = 4"
      by (simp add: binaryExponent_step)
    show ?thesis
      by (simp add: roundDouble_def roundEven_def pow2_def Let_def ex)
  qed
  have b6: "roundDouble (28) = 28"
  proof -
    have ex: "binaryExponent (28) = 4"
      by (simp add: binaryExponent_step)
    show ?thesis
      by (simp add: roundDouble_def roundEven_def pow2_def Let_def ex)
  qed
  have b7: "roundDouble (35) = 35"
  proof -
    have ex: "binaryExponent (35) = 5"
      by (simp add: binaryExponent_step)
    show ?thesis
      by (simp add: roundDouble_def roundEven_def pow2_def Let_def ex)
  qed
  have b8: "roundDouble (42) = 42"
  proof -
    have ex: "binaryExponent (42) = 5"
      by (simp add: binaryExponent_step)
    show ?thesis
      by (simp add: roundDouble_def roundEven_def pow2_def Let_def ex)
  qed
  have b9: "roundDouble (49) = 49"
  proof -
    have ex: "binaryExponent (49) = 5"
      by (simp add: binaryExponent_step)
    show ?thesis
      by (simp add: roundDouble_def roundEven_def pow2_def Let_def ex)
  qed
  have b10: "roundDouble (56) = 56"
  proof -
    have ex: "binaryExponent (56) = 5"
      by (simp add: binaryExponent_step)
    show ?thesis
      by (simp add: roundDouble_def roundEven_def pow2_def Let_def ex)
  qed
  have b11: "roundDouble (63) = 63"
  proof -
    have ex: "binaryExponent (63) = 5"
      by (simp add: binaryExponent_step)
    show ?thesis
      by (simp add: roundDouble_def roundEven_def pow2_def Let_def ex)
  qed
  have b12: "roundDouble (14411518807585587 / 18014398509481984) = 3602879701896397 / 4503599627370496"
  proof -
    have ex: "binaryExponent (14411518807585587 / 18014398509481984) = - 1"
      by (simp add: binaryExponent_step)
    show ?thesis
      by (simp add: roundDouble_def roundEven_def pow2_def Let_def ex)
  qed
  have b13: "roundDouble (25220157913274779 / 18014398509481984) = 6305039478318695 / 4503599627370496"
  proof -
    have ex: "binaryExponent (25220157913274779 / 18014398509481984) = 0"
      by (simp add: binaryExponent_step)
    show ?thesis
      by (simp add: roundDouble_def roundEven_def pow2_def Let_def ex)
  qed
  have b14: "roundDouble (25220157913274779 / 4503599627370496) = 6305039478318695 / 1125899906842624"
  proof -
    have ex: "binaryExponent (25220157913274779 / 4503599627370496) = 2"
      by (simp add: binaryExponent_step)
    show ?thesis
      by (simp add: roundDouble_def roundEven_def pow2_def Let_def ex)
  qed
  have b15: "roundDouble (31525197391593475 / 4503599627370496) = 7881299347898369 / 1125899906842624"
  proof -
    have ex: "binaryExponent (31525197391593475 / 4503599627370496) = 2"
      by (simp add: binaryExponent_step)
    show ?thesis
      by (simp add: roundDouble_def roundEven_def pow2_def Let_def ex)
  qed
  have 3: "calcSMA [7, 7, 7, 7, 7, 7, 7, 7, 7, 7] 9 = Some 7"
    by (simp add: calcSMA_def reduce_add_def slice_last_def b1 b2 b3 b4 b5 b6 b7 b8 b9 b10 b11 b12 b13 b14 b15)
  have 4: "calcEMA [7, 7, 7, 7, 7, 7, 7, 7, 7, 7] 9 = Some (7881299347898369 / 1125899906842624)"
    by (simp add: calcEMA_def reduce_add_def Let_def b1 b2 b3 b4 b5 b6 b7 b8 b9 b10 b11 b12 b13 b14 b15)
  show ?thesis using 1 2 3 4 by (simp add: tenth_def)
qed

end
